theory Spec2Isabelle
  imports Complex_Main "HOL-Library.Product_Lexorder" "HOL-Library.Option_ord"
begin

section \<open>Bus route lookup: the store, name resolution, search and slicing\<close>

text \<open>
  The development follows \<^verbatim>\<open>bus_routes/views.py\<close> and \<^verbatim>\<open>bus_routes/models.py\<close>.
  Python integers are \<^typ>\<open>int\<close>, a string is a list of characters (code points below 256),
  a nullable column is an \<^typ>\<open>'a option\<close>.
\<close>

subsection \<open>Strings\<close>

text \<open>\<^verbatim>\<open>str.isspace\<close> on the code points below 256: tab to carriage return,
  the four separators 28 to 31, space, next-line (133) and no-break space (160).\<close>

definition isspace :: "char \<Rightarrow> bool" where
  "isspace c = (let n = (of_char c :: nat) in
     (9 \<le> n \<and> n \<le> 13) \<or> (28 \<le> n \<and> n \<le> 32) \<or> n = 133 \<or> n = 160)"

text \<open>\<^verbatim>\<open>s.strip()\<close>: white space is removed at both ends.\<close>

definition strip :: "string \<Rightarrow> string" where
  "strip s = rev (dropWhile isspace (rev (dropWhile isspace s)))"

text \<open>\<^verbatim>\<open>s.endswith(t)\<close>.\<close>

definition endswith :: "string \<Rightarrow> string \<Rightarrow> bool" where
  "endswith s t = (length t \<le> length s \<and> drop (length s - length t) s = t)"

text \<open>\<^verbatim>\<open>s.rsplit(c, 1)\<close> for a string that contains \<open>c\<close>: the scan runs from the
  right end, the part after the last \<open>c\<close> is \<open>parts[1]\<close>, the part before it is
  \<open>parts[0]\<close>. Without an occurrence of \<open>c\<close> the only part is \<open>s\<close>.\<close>

definition rsplit1 :: "char \<Rightarrow> string \<Rightarrow> string list" where
  "rsplit1 c s =
     (if c \<in> set s
      then [rev (tl (dropWhile (\<lambda>x. x \<noteq> c) (rev s))), rev (takeWhile (\<lambda>x. x \<noteq> c) (rev s))]
      else [s])"

text \<open>
  \<^verbatim>\<open>
  def parse_stop_name_with_road(full_name):
      if '(' in full_name and full_name.endswith(')'):
          parts = full_name.rsplit('(', 1)
          stop_name = parts[0].strip()
          road_name = parts[1][:-1].strip()
          return stop_name, road_name
      return full_name, None
  \<close>
\<close>

definition parse_stop_name_with_road :: "string \<Rightarrow> string \<times> string option" where
  "parse_stop_name_with_road full_name =
     (if CHR ''('' \<in> set full_name \<and> endswith full_name '')''
      then (case rsplit1 CHR ''('' full_name of
              [p0, p1] \<Rightarrow> (strip p0, Some (strip (butlast p1)))
            | _ \<Rightarrow> (full_name, None))
      else (full_name, None))"

subsection \<open>Facts on strings\<close>

lemma rsplit1_last:
  assumes "c \<notin> set q"
  shows "rsplit1 c (p @ c # q) = [p, q]"
proof -
  have tw: "takeWhile (\<lambda>x. x \<noteq> c) (rev q @ c # rev p) = rev q"
    using assms by (auto simp: takeWhile_tail)
  have "dropWhile (\<lambda>x. x \<noteq> c) (rev q @ c # rev p) = dropWhile (\<lambda>x. x \<noteq> c) (c # rev p)"
    by (rule dropWhile_append2) (use assms in auto)
  then have dw: "dropWhile (\<lambda>x. x \<noteq> c) (rev q @ c # rev p) = c # rev p"
    by simp
  show ?thesis
    by (simp add: rsplit1_def tw dw)
qed

lemma split_at_last:
  assumes "c \<in> set s"
  shows "\<exists>p q. s = p @ c # q \<and> c \<notin> set q"
  using assms by (metis split_list_last)

lemma endswith_paren:
  "endswith s '')'' \<longleftrightarrow> (s \<noteq> [] \<and> last s = CHR '')'')"
proof (cases s rule: rev_cases)
  case Nil
  then show ?thesis by (simp add: endswith_def)
next
  case (snoc ys y)
  then show ?thesis by (auto simp: endswith_def)
qed

lemma paren_decompose:
  assumes "CHR ''('' \<in> set s" and "endswith s '')''"
  shows "\<exists>p q. s = p @ ''('' @ q @ '')'' \<and> CHR ''('' \<notin> set q"
proof -
  obtain p t where s: "s = p @ CHR ''('' # t" and t: "CHR ''('' \<notin> set t"
    using split_at_last [OF assms(1)] by blast
  from assms(2) have ne: "s \<noteq> []" and l: "last s = CHR '')''"
    by (simp_all add: endswith_paren)
  have "t \<noteq> []"
  proof
    assume "t = []"
    with s have "last s = CHR ''(''" by simp
    with l show False by simp
  qed
  then obtain q x where tq: "t = q @ [x]"
    by (metis rev_exhaust)
  with s l have "x = CHR '')''" by simp
  with s tq t show ?thesis by auto
qed

subsection \<open>The split of a stop name and its road\<close>

text \<open>
  C6. A string that contains \<open>(\<close> and ends with \<open>)\<close> is cut at its last \<open>(\<close>: the
  part before it, stripped, is the stop name, and the part after it without the closing
  \<open>)\<close>, stripped, is the road. Any other string is returned whole, with no road.
\<close>

theorem parse_stop_name_with_road_rule:
  "(CHR ''('' \<in> set s \<and> endswith s '')'' \<longrightarrow>
      (\<exists>p q. s = p @ ''('' @ q @ '')'' \<and> CHR ''('' \<notin> set q \<and>
             parse_stop_name_with_road s = (strip p, Some (strip q)))) \<and>
   (\<not> (CHR ''('' \<in> set s \<and> endswith s '')'') \<longrightarrow>
      parse_stop_name_with_road s = (s, None))"
proof (intro conjI impI)
  assume a: "CHR ''('' \<in> set s \<and> endswith s '')''"
  then obtain p q where s: "s = p @ ''('' @ q @ '')''" and q: "CHR ''('' \<notin> set q"
    using paren_decompose by blast
  have "CHR ''('' \<notin> set (q @ '')'')" using q by simp
  then have "rsplit1 CHR ''('' (p @ CHR ''('' # (q @ '')'')) = [p, q @ '')'']"
    by (rule rsplit1_last)
  then have "rsplit1 CHR ''('' s = [p, q @ '')'']"
    using s by simp
  then have "parse_stop_name_with_road s = (strip p, Some (strip q))"
    using a by (simp add: parse_stop_name_with_road_def)
  with s q show "\<exists>p q. s = p @ ''('' @ q @ '')'' \<and> CHR ''('' \<notin> set q \<and>
             parse_stop_name_with_road s = (strip p, Some (strip q))"
    by blast
next
  assume "\<not> (CHR ''('' \<in> set s \<and> endswith s '')'')"
  then show "parse_stop_name_with_road s = (s, None)"
    by (auto simp: parse_stop_name_with_road_def)
qed

theorem parse_stop_name_with_road_witness:
  "parse_stop_name_with_road ''Central (Main Road)'' = (''Central'', Some ''Main Road'') \<and>
   parse_stop_name_with_road ''Central'' = (''Central'', None)"
proof
  have pre: "CHR ''('' \<in> set ''Central (Main Road)'' \<and> endswith ''Central (Main Road)'' '')''"
    by (simp add: endswith_def)
  with parse_stop_name_with_road_rule [of "''Central (Main Road)''"]
  obtain p q where s: "''Central (Main Road)'' = p @ ''('' @ q @ '')''"
    and q: "CHR ''('' \<notin> set q"
    and r: "parse_stop_name_with_road ''Central (Main Road)'' = (strip p, Some (strip q))"
    by blast
  have e: "''Central '' @ CHR ''('' # ''Main Road)'' = p @ CHR ''('' # (q @ '')'')"
    using s by simp
  have n1: "CHR ''('' \<notin> set ''Central ''" and n2: "CHR ''('' \<notin> set ''Main Road)''"
    by simp_all
  have "''Central '' = p \<and> ''Main Road)'' = q @ '')''"
    using append_Cons_eq_iff [OF n1 n2, of p "q @ '')''"] e by blast
  then have "p = ''Central ''" and "q = ''Main Road''"
    by auto
  with r show "parse_stop_name_with_road ''Central (Main Road)'' = (''Central'', Some ''Main Road'')"
    by (simp add: strip_def isspace_def)
next
  have "\<not> (CHR ''('' \<in> set ''Central'' \<and> endswith ''Central'' '')'')"
    by simp
  with parse_stop_name_with_road_rule [of "''Central''"]
  show "parse_stop_name_with_road ''Central'' = (''Central'', None)"
    by blast
qed

subsection \<open>The store\<close>

text \<open>
  The rows of \<^verbatim>\<open>models.py\<close>. A \<^verbatim>\<open>DecimalField\<close> holds an exact decimal
  fraction, a rational number here. A segment carries its line and its stop as the objects
  that \<^verbatim>\<open>select_related\<close> loads, so \<^verbatim>\<open>segment.bus_stop.id\<close> is
  \<open>bs_id (bus_stop segment)\<close> and \<^verbatim>\<open>segment.bus_line_id\<close> is \<open>bl_id (bus_line segment)\<close>.
\<close>

record BusStop =
  bs_id :: int
  name_mm :: string
  name_en :: string
  road_name_mm :: "string option"
  road_name_en :: "string option"
  latitude :: "rat option"
  longitude :: "rat option"

record BusLine =
  bl_id :: int
  line_number :: int
  description :: string

record RouteSegment =
  rs_id :: int
  bus_line :: BusLine
  bus_stop :: BusStop
  order :: int

text \<open>The three tables, each in the order the database stores its rows. A query that
  orders its rows sorts them stably, so rows that tie keep their stored order.\<close>

record store =
  bus_stops :: "BusStop list"
  bus_lines :: "BusLine list"
  route_segments :: "RouteSegment list"

text \<open>\<^verbatim>\<open>queryset.first()\<close> on a model without \<^verbatim>\<open>Meta.ordering\<close> orders by
  primary key.\<close>

definition first_by_pk :: "('a \<Rightarrow> int) \<Rightarrow> 'a list \<Rightarrow> 'a option" where
  "first_by_pk pk rows = (case sort_key pk rows of [] \<Rightarrow> None | r # _ \<Rightarrow> Some r)"

subsection \<open>Resolving a stop name\<close>

text \<open>The lookup \<^verbatim>\<open>field__iexact=value\<close> compares without regard to the case of the
  letters a to z; a NULL column matches no value.\<close>

definition upper_code :: "char \<Rightarrow> nat" where
  "upper_code c = (let n = (of_char c :: nat) in if 97 \<le> n \<and> n \<le> 122 then n - 32 else n)"

definition iexact :: "string \<Rightarrow> string \<Rightarrow> bool" where
  "iexact field v = (map upper_code field = map upper_code v)"

definition iexact_null :: "string option \<Rightarrow> string \<Rightarrow> bool" where
  "iexact_null field v = (case field of None \<Rightarrow> False | Some f \<Rightarrow> iexact f v)"

text \<open>\<^verbatim>\<open>Q(name_en__iexact=stop_name) | Q(name_mm__iexact=stop_name)\<close>\<close>

definition name_query :: "string \<Rightarrow> BusStop \<Rightarrow> bool" where
  "name_query stop_name s = (iexact (name_en s) stop_name \<or> iexact (name_mm s) stop_name)"

text \<open>\<^verbatim>\<open>Q(name_en__iexact=stop_name, road_name_en__iexact=road_name) |
  Q(name_mm__iexact=stop_name, road_name_mm__iexact=road_name)\<close>\<close>

definition road_query :: "string \<Rightarrow> string \<Rightarrow> BusStop \<Rightarrow> bool" where
  "road_query stop_name road_name s =
     ((iexact (name_en s) stop_name \<and> iexact_null (road_name_en s) road_name) \<or>
      (iexact (name_mm s) stop_name \<and> iexact_null (road_name_mm s) road_name))"

text \<open>The four alternatives of \<^verbatim>\<open>no_road_query\<close>.\<close>

definition no_road_query :: "string \<Rightarrow> BusStop \<Rightarrow> bool" where
  "no_road_query stop_name s =
     ((iexact (name_en s) stop_name \<and> road_name_en s = None) \<or>
      (iexact (name_en s) stop_name \<and> iexact_null (road_name_en s) []) \<or>
      (iexact (name_mm s) stop_name \<and> road_name_mm s = None) \<or>
      (iexact (name_mm s) stop_name \<and> iexact_null (road_name_mm s) []))"

text \<open>
  \<^verbatim>\<open>
  def get_bus_stop_object(stop_name_raw):
      stop_name, road_name = parse_stop_name_with_road(stop_name_raw)
      query = Q(name_en__iexact=stop_name) | Q(name_mm__iexact=stop_name)
      if road_name:
          query = (... name and road ...)
          if not BusStop.objects.filter(query).exists():
              query = Q(name_en__iexact=stop_name) | Q(name_mm__iexact=stop_name)
      else:
          no_road_query = (...)
          if BusStop.objects.filter(no_road_query).exists():
              query = no_road_query
          else:
              query = Q(name_en__iexact=stop_name) | Q(name_mm__iexact=stop_name)
      return BusStop.objects.filter(query).first()
  \<close>
  The test \<^verbatim>\<open>if road_name\<close> is false for \<^verbatim>\<open>None\<close> and for the empty string.
\<close>

definition get_bus_stop_object :: "store \<Rightarrow> string \<Rightarrow> BusStop option" where
  "get_bus_stop_object db stop_name_raw =
     (case parse_stop_name_with_road stop_name_raw of (stop_name, road_name) \<Rightarrow>
        let query =
          (if road_name \<noteq> None \<and> road_name \<noteq> Some []
           then (if filter (road_query stop_name (the road_name)) (bus_stops db) \<noteq> []
                 then road_query stop_name (the road_name)
                 else name_query stop_name)
           else (if filter (no_road_query stop_name) (bus_stops db) \<noteq> []
                 then no_road_query stop_name
                 else name_query stop_name))
        in first_by_pk bs_id (filter query (bus_stops db)))"

text \<open>The resolution of a name with a road as the specification words it: the stops that
  match name and road in one language, and the stops that match the name alone only when
  there is none of the former.\<close>

definition resolve_with_road_spec :: "store \<Rightarrow> string \<Rightarrow> string \<Rightarrow> BusStop option" where
  "resolve_with_road_spec db stop_name road_name =
     (if \<exists>s \<in> set (bus_stops db). road_query stop_name road_name s
      then first_by_pk bs_id (filter (road_query stop_name road_name) (bus_stops db))
      else first_by_pk bs_id (filter (name_query stop_name) (bus_stops db)))"

text \<open>Two stops called Central, the first on Main Road, the second with no road.\<close>

definition central_main :: BusStop where
  "central_main = \<lparr>bs_id = 1, name_mm = ''Baho'', name_en = ''Central'',
     road_name_mm = Some ''Lanmagyi'', road_name_en = Some ''Main Road'',
     latitude = None, longitude = None\<rparr>"

definition central_plain :: BusStop where
  "central_plain = \<lparr>bs_id = 2, name_mm = ''Baho'', name_en = ''Central'',
     road_name_mm = None, road_name_en = None, latitude = None, longitude = None\<rparr>"

definition central_db :: store where
  "central_db = \<lparr>bus_stops = [central_plain, central_main], bus_lines = [], route_segments = []\<rparr>"

lemma first_by_pk_None: "first_by_pk pk rows = None \<longleftrightarrow> rows = []"
proof -
  have "sort_key pk rows = [] \<longleftrightarrow> rows = []"
    by (metis length_sort list.size(3) length_0_conv)
  then show ?thesis
    by (auto simp: first_by_pk_def split: list.splits)
qed

lemma first_by_pk_Some:
  assumes "first_by_pk pk rows = Some r"
  shows "r \<in> set rows \<and> (\<forall>x \<in> set rows. pk r \<le> pk x)"
proof -
  from assms obtain rest where s: "sort_key pk rows = r # rest"
    by (auto simp: first_by_pk_def split: list.splits)
  have "set (sort_key pk rows) = set rows" by simp
  with s have mem: "r \<in> set rows" and sub: "set rest \<subseteq> set rows" and cov: "set rows = insert r (set rest)"
    by auto
  have "sorted (map pk (sort_key pk rows))" by (rule sorted_sort_key)
  with s have "\<forall>x \<in> set rest. pk r \<le> pk x" by simp
  with cov mem show ?thesis by auto
qed

lemma first_by_pk_filter:
  assumes "\<exists>s \<in> set rows. q s"
  shows "\<exists>r. first_by_pk pk (filter q rows) = Some r \<and> r \<in> set rows \<and> q r \<and>
             (\<forall>x \<in> set rows. q x \<longrightarrow> pk r \<le> pk x)"
proof -
  from assms have "filter q rows \<noteq> []"
    by (simp add: filter_empty_conv)
  then obtain r where r: "first_by_pk pk (filter q rows) = Some r"
    using first_by_pk_None [of pk "filter q rows"] by (cases "first_by_pk pk (filter q rows)") auto
  from first_by_pk_Some [OF r] show ?thesis using r by auto
qed

text \<open>
  C7 as stated fails for a string whose road part is empty: \<^verbatim>\<open>"Central ()"\<close> parses
  to the name Central and the road \<^verbatim>\<open>""\<close>, the test \<^verbatim>\<open>if road_name\<close> sends it to
  the branch for names without a road, and the stop without a road is preferred, while
  the stated procedure finds no stop with the road \<^verbatim>\<open>""\<close> and takes the first stop
  called Central.
\<close>

theorem get_bus_stop_object_empty_road_counterexample:
  "parse_stop_name_with_road ''Central ()'' = (''Central'', Some []) \<and>
   get_bus_stop_object central_db ''Central ()'' = Some central_plain \<and>
   resolve_with_road_spec central_db ''Central'' [] = Some central_main"
  by (simp add: parse_stop_name_with_road_def endswith_def rsplit1_def strip_def isspace_def
      get_bus_stop_object_def resolve_with_road_spec_def central_db_def central_plain_def
      central_main_def first_by_pk_def road_query_def name_query_def no_road_query_def
      iexact_def iexact_null_def upper_code_def)

text \<open>
  C7, amended. For a search string that parses to a name and a road that is not empty,
  the stop returned is the one the stated procedure returns: a stop that matches name and
  road in one language when there is one (the one with the least primary key), and
  otherwise the first stop that matches the name alone.
\<close>

theorem get_bus_stop_object_with_road:
  assumes "parse_stop_name_with_road raw = (stop_name, Some road_name)"
    and "road_name \<noteq> []"
  shows "get_bus_stop_object db raw = resolve_with_road_spec db stop_name road_name \<and>
         ((\<exists>s \<in> set (bus_stops db). road_query stop_name road_name s) \<longrightarrow>
            (\<exists>r. get_bus_stop_object db raw = Some r \<and> r \<in> set (bus_stops db) \<and>
                 road_query stop_name road_name r \<and>
                 (\<forall>x \<in> set (bus_stops db). road_query stop_name road_name x \<longrightarrow> bs_id r \<le> bs_id x)))"
proof
  show eq: "get_bus_stop_object db raw = resolve_with_road_spec db stop_name road_name"
    using assms
    by (simp add: get_bus_stop_object_def resolve_with_road_spec_def filter_empty_conv)
  show "(\<exists>s \<in> set (bus_stops db). road_query stop_name road_name s) \<longrightarrow>
            (\<exists>r. get_bus_stop_object db raw = Some r \<and> r \<in> set (bus_stops db) \<and>
                 road_query stop_name road_name r \<and>
                 (\<forall>x \<in> set (bus_stops db). road_query stop_name road_name x \<longrightarrow> bs_id r \<le> bs_id x))"
  proof
    assume ex: "\<exists>s \<in> set (bus_stops db). road_query stop_name road_name s"
    then have "get_bus_stop_object db raw =
        first_by_pk bs_id (filter (road_query stop_name road_name) (bus_stops db))"
      using eq by (simp add: resolve_with_road_spec_def)
    with first_by_pk_filter [OF ex, of bs_id]
    show "\<exists>r. get_bus_stop_object db raw = Some r \<and> r \<in> set (bus_stops db) \<and>
                 road_query stop_name road_name r \<and>
                 (\<forall>x \<in> set (bus_stops db). road_query stop_name road_name x \<longrightarrow> bs_id r \<le> bs_id x)"
      by simp
  qed
qed

theorem get_bus_stop_object_with_road_witness:
  "parse_stop_name_with_road ''Central (Main Road)'' = (''Central'', Some ''Main Road'') \<and>
   (\<exists>s \<in> set (bus_stops central_db). road_query ''Central'' ''Main Road'' s) \<and>
   get_bus_stop_object central_db ''Central (Main Road)'' = Some central_main \<and>
   road_query ''Central'' ''Main Road'' central_main"
proof -
  have p: "parse_stop_name_with_road ''Central (Main Road)'' = (''Central'', Some ''Main Road'')"
    by (simp add: parse_stop_name_with_road_def endswith_def rsplit1_def strip_def isspace_def)
  have n: "''Main Road'' \<noteq> []" by simp
  have ex: "\<exists>s \<in> set (bus_stops central_db). road_query ''Central'' ''Main Road'' s"
    by (simp add: central_db_def central_plain_def central_main_def road_query_def
        iexact_def iexact_null_def upper_code_def)
  have spec: "resolve_with_road_spec central_db ''Central'' ''Main Road'' = Some central_main"
    by (simp add: resolve_with_road_spec_def central_db_def central_plain_def
      central_main_def first_by_pk_def road_query_def name_query_def
      iexact_def iexact_null_def upper_code_def)
  from get_bus_stop_object_with_road [OF p n, of central_db] ex spec
  have "get_bus_stop_object central_db ''Central (Main Road)'' = Some central_main"
    and "\<exists>r. get_bus_stop_object central_db ''Central (Main Road)'' = Some r \<and>
           road_query ''Central'' ''Main Road'' r"
    by auto
  then have "get_bus_stop_object central_db ''Central (Main Road)'' = Some central_main"
    and "road_query ''Central'' ''Main Road'' central_main"
    by auto
  with p ex show ?thesis by blast
qed

subsection \<open>Exceptions, floats and the routing service\<close>

text \<open>The exceptions the functions below can meet. A function that can raise returns
  \<open>py_error + 'a\<close>, with \<open>Inl\<close> for the exception.\<close>

datatype py_error = KeyError | TypeError | IndexError | AttributeError | OverflowError
  | ValueError | RequestException | DoesNotExist | MultipleObjectsReturned

definition bind_err :: "'e + 'a \<Rightarrow> ('a \<Rightarrow> 'e + 'b) \<Rightarrow> 'e + 'b" where
  "bind_err m f = (case m of Inl e \<Rightarrow> Inl e | Inr x \<Rightarrow> f x)"

text \<open>What \<^verbatim>\<open>response.json()\<close> returns: the values of \<^verbatim>\<open>json.loads\<close>. A number
  is an \<^verbatim>\<open>int\<close> or a \<^verbatim>\<open>float\<close>; the floats are a type \<open>'f\<close> the development
  leaves open. An object is the list of its keys and values, with distinct keys.\<close>

datatype 'f json = JNull | JBool bool | JInt int | JFloat 'f | JStr string
  | JArr "'f json list" | JObj "(string \<times> 'f json) list"

text \<open>The three calls at the head of the \<^verbatim>\<open>try\<close> block, taken together:
  \<^verbatim>\<open>requests.get(url, timeout=5)\<close> fails or times out, \<^verbatim>\<open>raise_for_status()\<close>
  raises, \<^verbatim>\<open>response.json()\<close> raises, or a JSON value is there.\<close>

datatype 'f http = Transport_failure | Bad_status | Bad_body | Body "'f json"

text \<open>Float arithmetic and the network are parameters: the conversion
  \<^verbatim>\<open>float(decimal)\<close>, the division \<^verbatim>\<open>int / int\<close> (which raises
  \<^verbatim>\<open>OverflowError\<close> on an integer too large for a float), the division
  \<^verbatim>\<open>float / int\<close>, the truth value of a float, \<^verbatim>\<open>round(x, n)\<close>, the sum of
  two floats, the float of an integer, the test \<^verbatim>\<open>x > 0\<close>, and the answer to the
  request for a list of (latitude, longitude) points.\<close>

record 'f runtime =
  float_of_decimal :: "rat \<Rightarrow> 'f"
  int_truediv :: "int \<Rightarrow> int \<Rightarrow> py_error + 'f"
  float_truediv :: "'f \<Rightarrow> int \<Rightarrow> 'f"
  float_truthy :: "'f \<Rightarrow> bool"
  round_float :: "'f \<Rightarrow> int \<Rightarrow> 'f"
  float_add :: "'f \<Rightarrow> 'f \<Rightarrow> 'f"
  float_of_int :: "int \<Rightarrow> 'f"
  float_positive :: "'f \<Rightarrow> bool"
  requests_get :: "('f \<times> 'f) list \<Rightarrow> 'f http"

text \<open>Truth value of a JSON value, as \<^verbatim>\<open>if data\<close> tests it.\<close>

fun truthy :: "'f runtime \<Rightarrow> 'f json \<Rightarrow> bool" where
  "truthy rt JNull = False"
| "truthy rt (JBool b) = b"
| "truthy rt (JInt i) = (i \<noteq> 0)"
| "truthy rt (JFloat x) = float_truthy rt x"
| "truthy rt (JStr s) = (s \<noteq> [])"
| "truthy rt (JArr xs) = (xs \<noteq> [])"
| "truthy rt (JObj kvs) = (kvs \<noteq> [])"

text \<open>\<^verbatim>\<open>value[key]\<close> with a string key: only a \<^verbatim>\<open>dict\<close> can be read so.\<close>

fun getitem_key :: "'f json \<Rightarrow> string \<Rightarrow> py_error + 'f json" where
  "getitem_key (JObj kvs) k = (case map_of kvs k of None \<Rightarrow> Inl KeyError | Some v \<Rightarrow> Inr v)"
| "getitem_key _ k = Inl TypeError"

text \<open>\<^verbatim>\<open>value[0]\<close>: the first element of a list, the first character of a string;
  the keys of a JSON object are strings, so \<^verbatim>\<open>0\<close> is no key of it.\<close>

fun getitem_0 :: "'f json \<Rightarrow> py_error + 'f json" where
  "getitem_0 (JArr xs) = (case xs of [] \<Rightarrow> Inl IndexError | x # _ \<Rightarrow> Inr x)"
| "getitem_0 (JStr s) = (case s of [] \<Rightarrow> Inl IndexError | c # _ \<Rightarrow> Inr (JStr [c]))"
| "getitem_0 (JObj kvs) = Inl KeyError"
| "getitem_0 _ = Inl TypeError"

text \<open>\<^verbatim>\<open>data.get('code', 'Unknown error')\<close>: only a \<^verbatim>\<open>dict\<close> has \<^verbatim>\<open>get\<close>.\<close>

fun get_default :: "'f json \<Rightarrow> string \<Rightarrow> 'f json \<Rightarrow> py_error + 'f json" where
  "get_default (JObj kvs) k d = (case map_of kvs k of None \<Rightarrow> Inr d | Some v \<Rightarrow> Inr v)"
| "get_default _ k d = Inl AttributeError"

text \<open>\<^verbatim>\<open>value / n\<close> for an integer constant \<open>n\<close>: a \<^verbatim>\<open>bool\<close> is an \<^verbatim>\<open>int\<close>.\<close>

fun truediv :: "'f runtime \<Rightarrow> 'f json \<Rightarrow> int \<Rightarrow> py_error + 'f" where
  "truediv rt (JInt i) n = int_truediv rt i n"
| "truediv rt (JBool b) n = int_truediv rt (if b then 1 else 0) n"
| "truediv rt (JFloat x) n = Inr (float_truediv rt x n)"
| "truediv rt _ n = Inl TypeError"

text \<open>
  The body of the \<^verbatim>\<open>try\<close> block:
  \<^verbatim>\<open>
  response = requests.get(url, timeout=5)
  response.raise_for_status()
  data = response.json()
  if data and data['code'] == 'Ok' and data['routes']:
      route = data['routes'][0]
      distance_meters = route['distance']
      duration_seconds = route['duration']
      distance_km = distance_meters / 1000
      duration_minutes = duration_seconds / 60
      return distance_km, duration_minutes
  else:
      print(f"... {data.get('code', 'Unknown error')}")
      return None, None
  \<close>
\<close>

definition osrm_try :: "'f runtime \<Rightarrow> 'f http \<Rightarrow> py_error + ('f option \<times> 'f option)" where
  "osrm_try rt response =
     (case response of
        Transport_failure \<Rightarrow> Inl RequestException
      | Bad_status \<Rightarrow> Inl RequestException
      | Bad_body \<Rightarrow> Inl ValueError
      | Body data \<Rightarrow>
          bind_err
            (if \<not> truthy rt data then Inr False
             else bind_err (getitem_key data ''code'') (\<lambda>code.
               if code \<noteq> JStr ''Ok'' then Inr False
               else bind_err (getitem_key data ''routes'') (\<lambda>routes. Inr (truthy rt routes))))
            (\<lambda>ok.
               if ok then
                 bind_err (getitem_key data ''routes'') (\<lambda>routes.
                 bind_err (getitem_0 routes) (\<lambda>route.
                 bind_err (getitem_key route ''distance'') (\<lambda>distance_meters.
                 bind_err (getitem_key route ''duration'') (\<lambda>duration_seconds.
                 bind_err (truediv rt distance_meters 1000) (\<lambda>distance_km.
                 bind_err (truediv rt duration_seconds 60) (\<lambda>duration_minutes.
                 Inr (Some distance_km, Some duration_minutes)))))))
               else
                 bind_err (get_default data ''code'' (JStr ''Unknown error'')) (\<lambda>_.
                 Inr (None, None))))"

text \<open>\<^verbatim>\<open>[(lat, lon) for lat, lon in coords_list if lat is not None and lon is not None]\<close>\<close>

definition valid_coords :: "('f option \<times> 'f option) list \<Rightarrow> ('f \<times> 'f) list" where
  "valid_coords coords_list =
     map (\<lambda>(lat, lon). (the lat, the lon))
       (filter (\<lambda>(lat, lon). lat \<noteq> None \<and> lon \<noteq> None) coords_list)"

text \<open>
  \<^verbatim>\<open>
  def get_route_details_from_osrm(coords_list):
      if not coords_list or len(coords_list) < 2:
          return None, None
      valid_coords = [...]
      if len(valid_coords) < 2:
          return None, None
      ...
      try:
          ...
      except requests.exceptions.RequestException as e:
          return None, None
      except Exception as e:
          return None, None
  \<close>
  The URL is made of the valid points, so the answer of the service is a function of them.
\<close>

definition get_route_details_from_osrm ::
  "'f runtime \<Rightarrow> ('f option \<times> 'f option) list \<Rightarrow> py_error + ('f option \<times> 'f option)" where
  "get_route_details_from_osrm rt coords_list =
     (if coords_list = [] \<or> length coords_list < 2 then Inr (None, None)
      else if length (valid_coords coords_list) < 2 then Inr (None, None)
      else (case osrm_try rt (requests_get rt (valid_coords coords_list)) of
              Inr r \<Rightarrow> Inr r
            | Inl RequestException \<Rightarrow> Inr (None, None)
            | Inl _ \<Rightarrow> Inr (None, None)))"

text \<open>A well-formed answer, in the words of the interface: an object whose
  \<^verbatim>\<open>code\<close> is \<^verbatim>\<open>"Ok"\<close> and whose \<^verbatim>\<open>routes\<close> is a list that starts with an
  object holding a number under \<^verbatim>\<open>distance\<close> and under \<^verbatim>\<open>duration\<close>. The result
  is that pair of numbers.\<close>

fun is_number :: "'f json \<Rightarrow> bool" where
  "is_number (JInt i) = True"
| "is_number (JBool b) = True"
| "is_number (JFloat x) = True"
| "is_number _ = False"

definition well_formed_route :: "'f json \<Rightarrow> ('f json \<times> 'f json) option" where
  "well_formed_route data =
     (case data of
        JObj kvs \<Rightarrow>
          (case (map_of kvs ''code'', map_of kvs ''routes'') of
             (Some code, Some (JArr (JObj route # _))) \<Rightarrow>
               (case (map_of route ''distance'', map_of route ''duration'') of
                  (Some d, Some t) \<Rightarrow>
                    if code = JStr ''Ok'' \<and> is_number d \<and> is_number t then Some (d, t) else None
                | _ \<Rightarrow> None)
           | _ \<Rightarrow> None)
      | _ \<Rightarrow> None)"

definition divisions :: "'f runtime \<Rightarrow> 'f json \<times> 'f json \<Rightarrow> 'f option \<times> 'f option" where
  "divisions rt dt =
     (case (truediv rt (fst dt) 1000, truediv rt (snd dt) 60) of
        (Inr km, Inr minutes) \<Rightarrow> (Some km, Some minutes)
      | _ \<Rightarrow> (None, None))"

lemma truediv_not_number: "\<not> is_number v \<Longrightarrow> \<exists>e. truediv rt v n = Inl e"
  by (cases v) simp_all

lemma osrm_try_route:
  assumes "getitem_0 routes = Inr route"
  shows "(case bind_err (getitem_key route ''distance'') (\<lambda>distance_meters.
                 bind_err (getitem_key route ''duration'') (\<lambda>duration_seconds.
                 bind_err (truediv rt distance_meters 1000) (\<lambda>distance_km.
                 bind_err (truediv rt duration_seconds 60) (\<lambda>duration_minutes.
                 Inr (Some distance_km, Some duration_minutes))))) of
            Inr r \<Rightarrow> r | Inl _ \<Rightarrow> (None, None)) =
         (case route of
            JObj rkvs \<Rightarrow>
              (case (map_of rkvs ''distance'', map_of rkvs ''duration'') of
                 (Some d, Some t) \<Rightarrow> if is_number d \<and> is_number t then divisions rt (d, t) else (None, None)
               | _ \<Rightarrow> (None, None))
          | _ \<Rightarrow> (None, None))"
proof (cases route)
  case (JObj rkvs)
  show ?thesis
  proof (cases "map_of rkvs ''distance''")
    case None
    with JObj show ?thesis by (simp add: bind_err_def)
  next
    case d: (Some d)
    show ?thesis
    proof (cases "map_of rkvs ''duration''")
      case None
      with JObj d show ?thesis by (simp add: bind_err_def)
    next
      case t: (Some t)
      show ?thesis
      proof (cases "is_number d \<and> is_number t")
        case True
        with JObj d t show ?thesis
          by (auto simp: bind_err_def divisions_def split: sum.splits)
      next
        case False
        then have "(\<exists>e. truediv rt d 1000 = Inl e) \<or> (\<exists>e. truediv rt t 60 = Inl e)"
          using truediv_not_number by blast
        with JObj d t False show ?thesis
          by (auto simp: bind_err_def split: sum.splits)
      qed
    qed
  qed
qed (simp_all add: bind_err_def)

definition caught :: "py_error + ('f option \<times> 'f option) \<Rightarrow> 'f option \<times> 'f option" where
  "caught r = (case r of Inr x \<Rightarrow> x | Inl _ \<Rightarrow> (None, None))"

lemma osrm_try_body:
  "caught (osrm_try rt (Body data)) =
     (case well_formed_route data of Some dt \<Rightarrow> divisions rt dt | None \<Rightarrow> (None, None))"
proof (cases data)
  case (JObj kvs)
  show ?thesis
  proof (cases "kvs = []")
    case True
    with JObj show ?thesis
      by (simp add: osrm_try_def caught_def bind_err_def well_formed_route_def)
  next
    case ne: False
    show ?thesis
    proof (cases "map_of kvs ''code''")
      case None
      with JObj ne show ?thesis
        by (simp add: osrm_try_def caught_def bind_err_def well_formed_route_def)
    next
      case code: (Some code)
      show ?thesis
      proof (cases "code = JStr ''Ok''")
        case False
        with JObj ne code show ?thesis
          by (auto simp: osrm_try_def caught_def bind_err_def well_formed_route_def
              split: option.splits json.splits list.splits)
      next
        case ok: True
        show ?thesis
        proof (cases "map_of kvs ''routes''")
          case None
          with JObj ne code ok show ?thesis
            by (simp add: osrm_try_def caught_def bind_err_def well_formed_route_def)
        next
          case routes: (Some routes)
          show ?thesis
          proof (cases "truthy rt routes")
            case False
            with JObj ne code ok routes show ?thesis
              by (cases routes)
                (simp_all add: osrm_try_def caught_def bind_err_def well_formed_route_def)
          next
            case tr: True
            show ?thesis
            proof (cases "getitem_0 routes")
              case (Inl e)
              with tr have "\<forall>r rs. routes \<noteq> JArr (r # rs)"
                by (cases routes) (auto split: list.splits)
              then have "well_formed_route data = None"
                using JObj code routes
                by (auto simp: well_formed_route_def split: json.splits list.splits)
              with JObj ne code ok routes tr Inl show ?thesis
                by (simp add: osrm_try_def caught_def bind_err_def)
            next
              case (Inr route)
              have lhs: "caught (osrm_try rt (Body data)) =
                  (case route of
                     JObj rkvs \<Rightarrow>
                       (case (map_of rkvs ''distance'', map_of rkvs ''duration'') of
                          (Some d, Some t) \<Rightarrow>
                            if is_number d \<and> is_number t then divisions rt (d, t) else (None, None)
                        | _ \<Rightarrow> (None, None))
                   | _ \<Rightarrow> (None, None))"
                using JObj ne code ok routes tr Inr osrm_try_route [OF Inr, of rt]
                by (simp add: osrm_try_def caught_def bind_err_def)
              show ?thesis
              proof (cases routes)
                case (JArr rs)
                with Inr obtain rest where rs: "rs = route # rest"
                  by (auto split: list.splits)
                with JObj code ok routes JArr lhs show ?thesis
                  by (auto simp: well_formed_route_def split: json.splits option.splits)
              next
                case (JStr s)
                with Inr obtain c where "route = JStr [c]"
                  by (auto split: list.splits)
                with JObj code routes JStr lhs show ?thesis
                  by (simp add: well_formed_route_def)
              qed (use Inr in simp_all)
            qed
          qed
        qed
      qed
    qed
  qed
qed (auto simp: osrm_try_def caught_def bind_err_def well_formed_route_def)

text \<open>
  C8. The lookup never raises: it always returns a pair. The pair is (None, None) when
  fewer than two points have both coordinates, when the request fails at transport, status
  or decoding, and when the answer is not a well-formed Ok answer (or a division
  fails); otherwise it is the distance divided by 1000 and the duration divided by 60.
\<close>

theorem get_route_details_from_osrm_result:
  "get_route_details_from_osrm rt coords_list =
     Inr (if length (valid_coords coords_list) < 2 then (None, None)
          else (case requests_get rt (valid_coords coords_list) of
                  Body data \<Rightarrow>
                    (case well_formed_route data of
                       Some dt \<Rightarrow> divisions rt dt
                     | None \<Rightarrow> (None, None))
                | _ \<Rightarrow> (None, None)))"
proof (cases "length (valid_coords coords_list) < 2")
  case True
  then show ?thesis by (simp add: get_route_details_from_osrm_def)
next
  case False
  have "length (valid_coords coords_list) \<le> length coords_list"
    by (simp add: valid_coords_def)
  with False have long: "\<not> (coords_list = [] \<or> length coords_list < 2)"
    by auto
  have c: "(case osrm_try rt r of Inr x \<Rightarrow> Inr x | Inl RequestException \<Rightarrow> Inr (None, None)
            | Inl _ \<Rightarrow> Inr (None, None)) = (Inr (caught (osrm_try rt r)) :: py_error + _)" for r
    by (simp add: caught_def split: sum.splits py_error.splits)
  show ?thesis
  proof (cases "requests_get rt (valid_coords coords_list)")
    case (Body data)
    with False long show ?thesis
      by (simp add: get_route_details_from_osrm_def c osrm_try_body)
  qed (use False long in \<open>simp_all add: get_route_details_from_osrm_def c, simp_all add: osrm_try_def caught_def\<close>)
qed

text \<open>A runtime for examples: exact rational arithmetic stands for the floats, rounding is
  left out, and the service gives one answer to every request.\<close>

definition exact_runtime :: "rat http \<Rightarrow> rat runtime" where
  "exact_runtime answer =
     \<lparr>float_of_decimal = (\<lambda>d. d),
      int_truediv = (\<lambda>i n. Inr (of_int i / of_int n)),
      float_truediv = (\<lambda>x n. x / of_int n),
      float_truthy = (\<lambda>x. x \<noteq> 0),
      round_float = (\<lambda>x n. x),
      float_add = (\<lambda>x y. x + y),
      float_of_int = of_int,
      float_positive = (\<lambda>x. 0 < x),
      requests_get = (\<lambda>points. answer)\<rparr>"

definition ok_answer :: "rat json" where
  "ok_answer = JObj [(''code'', JStr ''Ok''),
     (''routes'', JArr [JObj [(''distance'', JInt 1500), (''duration'', JInt 120)]])]"

theorem get_route_details_from_osrm_witness:
  "get_route_details_from_osrm (exact_runtime (Body ok_answer))
       [(Some 1, Some 2), (None, Some 5), (Some 3, Some 4)] = Inr (Some (3 / 2), Some 2) \<and>
   get_route_details_from_osrm (exact_runtime Transport_failure)
       [(Some 1, Some 2), (Some 3, Some 4)] = Inr (None, None) \<and>
   get_route_details_from_osrm (exact_runtime (Body (JObj [(''code'', JStr ''NoRoute'')])))
       [(Some 1, Some 2), (Some 3, Some 4)] = Inr (None, None) \<and>
   get_route_details_from_osrm (exact_runtime (Body ok_answer))
       [(Some 1, Some 2), (None, Some 4)] = Inr (None, None)"
  using get_route_details_from_osrm_result [of "exact_runtime (Body ok_answer)"
      "[(Some 1, Some 2), (None, Some 5), (Some 3, Some 4)]"]
    get_route_details_from_osrm_result [of "exact_runtime Transport_failure"
      "[(Some 1, Some 2), (Some 3, Some 4)]"]
    get_route_details_from_osrm_result [of "exact_runtime (Body (JObj [(''code'', JStr ''NoRoute'')]))"
      "[(Some 1, Some 2), (Some 3, Some 4)]"]
    get_route_details_from_osrm_result [of "exact_runtime (Body ok_answer)"
      "[(Some 1, Some 2), (None, Some 4)]"]
  by (simp add: exact_runtime_def ok_answer_def valid_coords_def well_formed_route_def
      divisions_def)

subsection \<open>The stops of a line between two stops\<close>

text \<open>\<^verbatim>\<open>RouteSegment.objects.filter(bus_line=bus_line)\<close>\<close>

definition line_segments :: "store \<Rightarrow> BusLine \<Rightarrow> RouteSegment list" where
  "line_segments db l = filter (\<lambda>s. bl_id (bus_line s) = bl_id l) (route_segments db)"

text \<open>\<^verbatim>\<open>RouteSegment.objects.filter(bus_line=bus_line, bus_stop=stop).first()\<close>: the model
  \<^verbatim>\<open>RouteSegment\<close> has \<^verbatim>\<open>ordering = ['bus_line', 'order']\<close>, and all rows here are
  of one line, so the first row is the one of least order.\<close>

definition first_segment :: "store \<Rightarrow> BusLine \<Rightarrow> BusStop \<Rightarrow> RouteSegment option" where
  "first_segment db l stop =
     (case sort_key order (filter (\<lambda>s. bs_id (bus_stop s) = bs_id stop) (line_segments db l)) of
        [] \<Rightarrow> None
      | s # _ \<Rightarrow> Some s)"

text \<open>One entry of \<^verbatim>\<open>route_stops_display\<close>.\<close>

record 'f stop_row =
  row_name_mm :: string
  row_name_en :: string
  row_road_name_mm :: "string option"
  row_road_name_en :: "string option"
  row_order :: int
  row_latitude :: "'f option"
  row_longitude :: "'f option"
  row_id :: int

text \<open>\<^verbatim>\<open>float(d) if d else None\<close>: a decimal that is NULL or zero is false.\<close>

definition float_or_none :: "'f runtime \<Rightarrow> rat option \<Rightarrow> 'f option" where
  "float_or_none rt d =
     (case d of None \<Rightarrow> None | Some x \<Rightarrow> if x \<noteq> 0 then Some (float_of_decimal rt x) else None)"

definition segment_row :: "'f runtime \<Rightarrow> RouteSegment \<Rightarrow> 'f stop_row" where
  "segment_row rt segment =
     \<lparr>row_name_mm = name_mm (bus_stop segment),
      row_name_en = name_en (bus_stop segment),
      row_road_name_mm = road_name_mm (bus_stop segment),
      row_road_name_en = road_name_en (bus_stop segment),
      row_order = order segment,
      row_latitude = float_or_none rt (latitude (bus_stop segment)),
      row_longitude = float_or_none rt (longitude (bus_stop segment)),
      row_id = bs_id (bus_stop segment)\<rparr>"

text \<open>The body of the loop over the segments: the state is the pair
  \<^verbatim>\<open>(route_stops_coords, route_stops_display)\<close>.\<close>

definition segment_step ::
  "'f runtime \<Rightarrow> RouteSegment \<Rightarrow> ('f option \<times> 'f option) list \<times> 'f stop_row list
     \<Rightarrow> ('f option \<times> 'f option) list \<times> 'f stop_row list" where
  "segment_step rt segment acc =
     (let lat = float_or_none rt (latitude (bus_stop segment));
          lng = float_or_none rt (longitude (bus_stop segment))
      in ((if lat \<noteq> None \<and> lng \<noteq> None then fst acc @ [(lat, lng)] else fst acc),
          snd acc @ [segment_row rt segment]))"

text \<open>The returned dictionary; \<^verbatim>\<open>'N/A'\<close> is \<open>None\<close>.\<close>

record 'f segment_details =
  stops_count :: nat
  total_distance_km :: "'f option"
  total_time_minutes :: "'f option"
  route_stops :: "'f stop_row list"
  start_stop_name :: string
  end_stop_name :: string

text \<open>The two queries for the slice: increasing order from the start to the end, or
  decreasing order when the start lies after the end.\<close>

definition slice_segments :: "store \<Rightarrow> BusLine \<Rightarrow> RouteSegment \<Rightarrow> RouteSegment \<Rightarrow> RouteSegment list" where
  "slice_segments db l start_segment end_segment =
     (if order start_segment \<le> order end_segment
      then sort_key order
             (filter (\<lambda>s. order start_segment \<le> order s \<and> order s \<le> order end_segment)
                (line_segments db l))
      else sort_key (\<lambda>s. - order s)
             (filter (\<lambda>s. order s \<le> order start_segment \<and> order end_segment \<le> order s)
                (line_segments db l)))"

text \<open>
  \<^verbatim>\<open>
  def get_segment_details(bus_line, start_stop, end_stop):
      start_segment = RouteSegment.objects.filter(bus_line=bus_line, bus_stop=start_stop).first()
      end_segment = RouteSegment.objects.filter(bus_line=bus_line, bus_stop=end_stop).first()
      if not start_segment or not end_segment:
          return None
      if start_segment.order <= end_segment.order:
          segments = ... order__gte=start_segment.order, order__lte=end_segment.order
                     ).order_by('order')
      else:
          segments = ... order__lte=start_segment.order, order__gte=end_segment.order
                     ).order_by('-order')
      if not segments:
          return None
      ... the loop ...
      total_distance, total_time = get_route_details_from_osrm(route_stops_coords)
      return {...}
  \<close>
\<close>

definition get_segment_details ::
  "'f runtime \<Rightarrow> store \<Rightarrow> BusLine \<Rightarrow> BusStop \<Rightarrow> BusStop \<Rightarrow> py_error + 'f segment_details option" where
  "get_segment_details rt db l start_stop end_stop =
     (case (first_segment db l start_stop, first_segment db l end_stop) of
        (Some start_segment, Some end_segment) \<Rightarrow>
          let segments = slice_segments db l start_segment end_segment in
          if segments = [] then Inr None
          else
            let acc = fold (segment_step rt) segments ([], []) in
            bind_err (get_route_details_from_osrm rt (fst acc)) (\<lambda>totals.
              Inr (Some
                \<lparr>stops_count = length segments,
                 total_distance_km = map_option (\<lambda>x. round_float rt x 2) (fst totals),
                 total_time_minutes = map_option (\<lambda>x. round_float rt x 0) (snd totals),
                 route_stops = snd acc,
                 start_stop_name = name_en start_stop,
                 end_stop_name = name_en end_stop\<rparr>))
      | _ \<Rightarrow> Inr None)"

subsection \<open>The stops-between query\<close>

text \<open>One entry of the result list of \<^verbatim>\<open>find_stops_between\<close>.\<close>

record between_result =
  br_bus_line :: BusLine
  br_stops :: "BusStop list"
  br_total_stops :: nat
  br_orders :: "int list"

text \<open>The lines with a segment at the start stop and a segment at the end stop.\<close>

definition common_bus_lines :: "store \<Rightarrow> BusStop \<Rightarrow> BusStop \<Rightarrow> BusLine list" where
  "common_bus_lines db start_stop end_stop =
     filter (\<lambda>l. list_ex (\<lambda>s. bs_id (bus_stop s) = bs_id start_stop) (line_segments db l) \<and>
                 list_ex (\<lambda>s. bs_id (bus_stop s) = bs_id end_stop) (line_segments db l))
       (bus_lines db)"

text \<open>
  \<^verbatim>\<open>
  for i, segment in enumerate(route_segments):
      if segment.bus_stop == start_stop:
          start_position = i
      if segment.bus_stop == end_stop:
          end_position = i
  \<close>
  Two model instances are equal when their primary keys are.
\<close>

definition find_positions :: "BusStop \<Rightarrow> BusStop \<Rightarrow> RouteSegment list \<Rightarrow> nat option \<times> nat option" where
  "find_positions start_stop end_stop segs =
     fold (\<lambda>(i, segment) (start_position, end_position).
             ((if bs_id (bus_stop segment) = bs_id start_stop then Some i else start_position),
              (if bs_id (bus_stop segment) = bs_id end_stop then Some i else end_position)))
       (enumerate 0 segs) (None, None)"

text \<open>The body of the loop over the common lines; \<open>None\<close> when nothing is appended.\<close>

definition stops_between_line :: "store \<Rightarrow> BusLine \<Rightarrow> BusStop \<Rightarrow> BusStop \<Rightarrow> between_result option" where
  "stops_between_line db l start_stop end_stop =
     (let segs = sort_key order (line_segments db l) in
      case find_positions start_stop end_stop segs of
        (Some start_position, Some end_position) \<Rightarrow>
          let lo = (if start_position > end_position then end_position else start_position);
              hi = (if start_position > end_position then start_position else end_position);
              between_segments = take (hi + 1 - lo) (drop lo segs)
          in Some \<lparr>br_bus_line = l,
                   br_stops = map bus_stop between_segments,
                   br_total_stops = length between_segments,
                   br_orders = map order between_segments\<rparr>
      | _ \<Rightarrow> None)"

definition find_stops_between :: "store \<Rightarrow> BusStop \<Rightarrow> BusStop \<Rightarrow> between_result list" where
  "find_stops_between db start_stop end_stop =
     List.map_filter (\<lambda>l. stops_between_line db l start_stop end_stop)
       (common_bus_lines db start_stop end_stop)"

text \<open>Stops and lines for examples.\<close>

definition mk_stop :: "int \<Rightarrow> string \<Rightarrow> rat option \<Rightarrow> rat option \<Rightarrow> BusStop" where
  "mk_stop i n lat lon = \<lparr>bs_id = i, name_mm = n, name_en = n, road_name_mm = None,
     road_name_en = None, latitude = lat, longitude = lon\<rparr>"

definition mk_line :: "int \<Rightarrow> BusLine" where
  "mk_line i = \<lparr>bl_id = i, line_number = 10 * i, description = []\<rparr>"

definition mk_segment :: "int \<Rightarrow> BusLine \<Rightarrow> BusStop \<Rightarrow> int \<Rightarrow> RouteSegment" where
  "mk_segment i l s k = \<lparr>rs_id = i, bus_line = l, bus_stop = s, order = k\<rparr>"

text \<open>One line with two stops that share the order 1: the constraint
  \<^verbatim>\<open>unique_together = ('bus_line', 'bus_stop', 'order')\<close> admits it.\<close>

definition tie_db :: store where
  "tie_db = \<lparr>bus_stops = [mk_stop 1 ''X'' None None, mk_stop 2 ''Y'' None None],
     bus_lines = [mk_line 1],
     route_segments = [mk_segment 1 (mk_line 1) (mk_stop 1 ''X'' None None) 1,
                       mk_segment 2 (mk_line 1) (mk_stop 2 ''Y'' None None) 1]\<rparr>"

text \<open>One line that visits X at order 1 and Y at order 2.\<close>

definition two_stop_db :: store where
  "two_stop_db = \<lparr>bus_stops = [mk_stop 1 ''X'' None None, mk_stop 2 ''Y'' None None],
     bus_lines = [mk_line 1],
     route_segments = [mk_segment 1 (mk_line 1) (mk_stop 1 ''X'' None None) 1,
                       mk_segment 2 (mk_line 1) (mk_stop 2 ''Y'' None None) 2]\<rparr>"

subsection \<open>Facts on sorting by a key\<close>

lemma sorted_key_unique:
  assumes "sorted (map f xs)" and "sorted (map f ys)"
    and "distinct (map f xs)" and "distinct ys" and "set xs = set ys"
  shows "xs = ys"
proof -
  from assms(3) have inj: "inj_on f (set xs)" and "distinct xs"
    by (simp_all add: distinct_map)
  with assms(4,5) have dy: "distinct (map f ys)"
    by (simp add: distinct_map)
  have "set (map f xs) = set (map f ys)"
    using assms(5) by simp
  with assms(1,2,3) dy have "map f xs = map f ys"
    by (metis sorted_distinct_set_unique)
  moreover have "inj_on f (set xs \<union> set ys)"
    using inj assms(5) by simp
  ultimately show ?thesis
    by (simp add: inj_on_map_eq_map)
qed

lemma sorted_rev_uminus:
  fixes zs :: "int list"
  assumes "sorted zs"
  shows "sorted (map uminus (rev zs))"
  using assms by (induction zs) (auto simp: sorted_append)

lemma sort_key_neg_rev:
  fixes f :: "'a \<Rightarrow> int"
  assumes "distinct (map f xs)"
  shows "sort_key (\<lambda>x. - f x) xs = rev (sort_key f xs)"
proof (rule sorted_key_unique [where f = "\<lambda>x. - f x"])
  show "sorted (map (\<lambda>x. - f x) (sort_key (\<lambda>x. - f x) xs))"
    by (rule sorted_sort_key)
  have "sorted (map f (sort_key f xs))"
    by (rule sorted_sort_key)
  then have "sorted (map uminus (rev (map f (sort_key f xs))))"
    by (rule sorted_rev_uminus)
  then show "sorted (map (\<lambda>x. - f x) (rev (sort_key f xs)))"
    by (simp add: rev_map comp_def)
  from assms have "distinct xs" and inj: "inj_on f (set xs)"
    by (simp_all add: distinct_map)
  have "inj_on (\<lambda>x. - f x) (set xs)"
    using inj by (auto simp: inj_on_def)
  then show "distinct (map (\<lambda>x. - f x) (sort_key (\<lambda>x. - f x) xs))"
    using \<open>distinct xs\<close> by (simp add: distinct_map)
  show "distinct (rev (sort_key f xs))"
    using \<open>distinct xs\<close> by simp
  show "set (sort_key (\<lambda>x. - f x) xs) = set (rev (sort_key f xs))"
    by simp
qed

lemma sort_key_same_key:
  fixes f :: "'a \<Rightarrow> int"
  assumes "distinct (map f xs)" and "\<forall>x \<in> set xs. f x = k"
  shows "sort_key f xs = xs \<and> rev xs = xs"
proof -
  have "length xs \<le> 1"
  proof (cases xs)
    case (Cons a as)
    show ?thesis
    proof (cases as)
      case (Cons b bs)
      with \<open>xs = a # as\<close> assms show ?thesis by auto
    qed (use \<open>xs = a # as\<close> in simp)
  qed simp
  then show ?thesis
    by (cases xs) (auto simp: Suc_le_eq)
qed

subsection \<open>Facts on the slice\<close>

lemma osrm_returns: "\<exists>r. get_route_details_from_osrm rt coords_list = Inr r"
  by (simp add: get_route_details_from_osrm_def split: sum.splits py_error.splits)

lemma fold_segment_step_rows:
  "snd (fold (segment_step rt) segs acc) = snd acc @ map (segment_row rt) segs"
  by (induction segs arbitrary: acc) (simp_all add: segment_step_def Let_def)

lemma first_segment_Some:
  assumes "first_segment db l stop = Some s"
  shows "s \<in> set (line_segments db l) \<and> bs_id (bus_stop s) = bs_id stop"
proof -
  from assms obtain rest where
    "sort_key order (filter (\<lambda>s. bs_id (bus_stop s) = bs_id stop) (line_segments db l)) = s # rest"
    by (auto simp: first_segment_def split: list.splits)
  then have "s \<in> set (sort_key order (filter (\<lambda>s. bs_id (bus_stop s) = bs_id stop) (line_segments db l)))"
    by simp
  then show ?thesis by simp
qed

lemma get_segment_details_rows:
  assumes "first_segment db l X = Some sx" and "first_segment db l Y = Some sy"
  shows "\<exists>r. get_segment_details rt db l X Y = Inr (Some r) \<and>
             route_stops r = map (segment_row rt) (slice_segments db l sx sy) \<and>
             stops_count r = length (slice_segments db l sx sy)"
proof -
  have sx: "sx \<in> set (line_segments db l)" and sy: "sy \<in> set (line_segments db l)"
    using assms first_segment_Some by blast+
  have "sx \<in> set (slice_segments db l sx sy)"
    using sx by (auto simp: slice_segments_def)
  then have ne: "slice_segments db l sx sy \<noteq> []"
    by auto
  obtain t where t: "get_route_details_from_osrm rt
      (fst (fold (segment_step rt) (slice_segments db l sx sy) ([], []))) = Inr t"
    using osrm_returns by blast
  show ?thesis
    using assms ne t
    by (simp add: get_segment_details_def Let_def bind_err_def fold_segment_step_rows)
qed

text \<open>
  C4 as stated fails on a line where two stops share one order value, which the
  uniqueness constraint on (line, stop, order) admits: both directions then run the same
  increasing query and return the same sequence.
\<close>

theorem get_segment_details_tie_counterexample:
  "map row_id (route_stops (the (projr (get_segment_details (exact_runtime Transport_failure)
        tie_db (mk_line 1) (mk_stop 1 ''X'' None None) (mk_stop 2 ''Y'' None None))))) = [1, 2] \<and>
   map row_id (route_stops (the (projr (get_segment_details (exact_runtime Transport_failure)
        tie_db (mk_line 1) (mk_stop 2 ''Y'' None None) (mk_stop 1 ''X'' None None))))) = [1, 2]"
  by (simp add: tie_db_def mk_stop_def mk_line_def mk_segment_def
      get_segment_details_def first_segment_def line_segments_def slice_segments_def
      segment_step_def segment_row_def float_or_none_def get_route_details_from_osrm_def
      valid_coords_def bind_err_def exact_runtime_def)

text \<open>
  C4, amended. On a line whose segments have pairwise distinct order values, for two
  stops X and Y served by the line, the stop sequence for (X, Y) is the reverse of the
  sequence for (Y, X); its order values are the values of the line between the two orders,
  increasing when the order of X is at most the order of Y and decreasing otherwise.
\<close>

theorem get_segment_details_reverse:
  assumes d: "distinct (map order (line_segments db l))"
    and x: "first_segment db l X = Some sx"
    and y: "first_segment db l Y = Some sy"
  shows "\<exists>r1 r2. get_segment_details rt db l X Y = Inr (Some r1) \<and>
           get_segment_details rt db l Y X = Inr (Some r2) \<and>
           route_stops r1 = rev (route_stops r2) \<and>
           map row_order (route_stops r1) =
             (if order sx \<le> order sy
              then sort (filter (\<lambda>k. order sx \<le> k \<and> k \<le> order sy) (map order (line_segments db l)))
              else rev (sort (filter (\<lambda>k. order sy \<le> k \<and> k \<le> order sx) (map order (line_segments db l)))))"
proof -
  obtain r1 where r1: "get_segment_details rt db l X Y = Inr (Some r1)"
    and rows1: "route_stops r1 = map (segment_row rt) (slice_segments db l sx sy)"
    using get_segment_details_rows [OF x y] by blast
  obtain r2 where r2: "get_segment_details rt db l Y X = Inr (Some r2)"
    and rows2: "route_stops r2 = map (segment_row rt) (slice_segments db l sy sx)"
    using get_segment_details_rows [OF y x] by blast
  define up where "up a b = filter (\<lambda>s. order a \<le> order s \<and> order s \<le> order b) (line_segments db l)"
    for a b :: RouteSegment
  have down: "filter (\<lambda>s. order s \<le> order a \<and> order b \<le> order s) (line_segments db l) = up b a"
    for a b
    unfolding up_def by (rule filter_cong) auto
  have dup: "distinct (map order (up a b))" for a b
    unfolding up_def using d by (rule distinct_map_filter)
  have slice: "slice_segments db l a b =
      (if order a \<le> order b then sort_key order (up a b) else rev (sort_key order (up b a)))"
    for a b
    by (simp add: slice_segments_def down sort_key_neg_rev [OF dup] up_def [symmetric])
  have rev_slice: "slice_segments db l sx sy = rev (slice_segments db l sy sx)"
  proof (cases "order sx = order sy")
    case True
    then have "\<forall>s \<in> set (up sx sy). order s = order sx"
      by (auto simp: up_def)
    moreover have "up sy sx = up sx sy"
      using True by (simp add: up_def)
    ultimately show ?thesis
      using sort_key_same_key [OF dup, of sx sy "order sx"] True by (simp add: slice)
  next
    case False
    then show ?thesis by (auto simp: slice)
  qed
  have key: "map order (sort_key order (up a b)) =
      sort (filter (\<lambda>k. order a \<le> k \<and> k \<le> order b) (map order (line_segments db l)))"
    for a b
  proof -
    have "map order (sort_key order (up a b)) = sort (map order (up a b))"
    proof (rule sorted_distinct_set_unique)
      show "sorted (map order (sort_key order (up a b)))"
        by (rule sorted_sort_key)
      have "distinct (up a b)" and "inj_on order (set (up a b))"
        using dup [of a b] by (simp_all add: distinct_map)
      then show "distinct (map order (sort_key order (up a b)))"
        by (simp add: distinct_map)
      show "sorted (sort (map order (up a b)))" by simp
      show "distinct (sort (map order (up a b)))" using dup [of a b] by simp
      show "set (map order (sort_key order (up a b))) = set (sort (map order (up a b)))"
        by simp
    qed
    also have "map order (up a b) =
        filter (\<lambda>k. order a \<le> k \<and> k \<le> order b) (map order (line_segments db l))"
      by (simp add: up_def filter_map comp_def)
    finally show ?thesis .
  qed
  have orders: "map row_order (map (segment_row rt) segs) = map order segs" for segs
    by (simp add: segment_row_def)
  have "map row_order (route_stops r1) =
      (if order sx \<le> order sy
       then sort (filter (\<lambda>k. order sx \<le> k \<and> k \<le> order sy) (map order (line_segments db l)))
       else rev (sort (filter (\<lambda>k. order sy \<le> k \<and> k \<le> order sx) (map order (line_segments db l)))))"
    by (simp only: rows1 orders slice) (simp add: key rev_map [symmetric])
  moreover have "route_stops r1 = rev (route_stops r2)"
    by (simp add: rows1 rows2 rev_slice rev_map)
  ultimately show ?thesis
    using r1 r2 by blast
qed

theorem get_segment_details_reverse_witness:
  "\<exists>r1 r2. get_segment_details (exact_runtime Transport_failure) two_stop_db (mk_line 1)
        (mk_stop 2 ''Y'' None None) (mk_stop 1 ''X'' None None) = Inr (Some r1) \<and>
      get_segment_details (exact_runtime Transport_failure) two_stop_db (mk_line 1)
        (mk_stop 1 ''X'' None None) (mk_stop 2 ''Y'' None None) = Inr (Some r2) \<and>
      route_stops r1 = rev (route_stops r2) \<and> map row_order (route_stops r1) = [2, 1]"
proof -
  have d: "distinct (map order (line_segments two_stop_db (mk_line 1)))"
    by (simp add: two_stop_db_def line_segments_def mk_segment_def mk_line_def)
  have y: "first_segment two_stop_db (mk_line 1) (mk_stop 2 ''Y'' None None) =
      Some (mk_segment 2 (mk_line 1) (mk_stop 2 ''Y'' None None) 2)"
    by (simp add: two_stop_db_def first_segment_def line_segments_def mk_segment_def
        mk_line_def mk_stop_def)
  have x: "first_segment two_stop_db (mk_line 1) (mk_stop 1 ''X'' None None) =
      Some (mk_segment 1 (mk_line 1) (mk_stop 1 ''X'' None None) 1)"
    by (simp add: two_stop_db_def first_segment_def line_segments_def mk_segment_def
        mk_line_def mk_stop_def)
  from get_segment_details_reverse [OF d y x, of "exact_runtime Transport_failure"]
  show ?thesis
    by (simp add: two_stop_db_def line_segments_def mk_segment_def mk_line_def)
qed

subsection \<open>A coordinate that is zero\<close>

text \<open>A store in which every coordinate that is zero has been replaced by NULL.\<close>

definition null_zero :: "rat option \<Rightarrow> rat option" where
  "null_zero d = (if d = Some 0 then None else d)"

definition null_zero_stop :: "BusStop \<Rightarrow> BusStop" where
  "null_zero_stop s = s\<lparr>latitude := null_zero (latitude s), longitude := null_zero (longitude s)\<rparr>"

definition null_zero_segment :: "RouteSegment \<Rightarrow> RouteSegment" where
  "null_zero_segment seg = seg\<lparr>bus_stop := null_zero_stop (bus_stop seg)\<rparr>"

definition null_zero_store :: "store \<Rightarrow> store" where
  "null_zero_store db = db\<lparr>bus_stops := map null_zero_stop (bus_stops db),
     route_segments := map null_zero_segment (route_segments db)\<rparr>"

text \<open>A line through three stops, the first of them at latitude zero.\<close>

definition equator_stop :: BusStop where
  "equator_stop = mk_stop 1 ''A'' (Some 0) (Some 96)"

definition equator_db :: store where
  "equator_db = \<lparr>bus_stops = [equator_stop, mk_stop 2 ''B'' (Some 16) (Some 96), mk_stop 3 ''C'' (Some 17) (Some 96)],
     bus_lines = [mk_line 1],
     route_segments = [mk_segment 1 (mk_line 1) equator_stop 1,
                       mk_segment 2 (mk_line 1) (mk_stop 2 ''B'' (Some 16) (Some 96)) 2,
                       mk_segment 3 (mk_line 1) (mk_stop 3 ''C'' (Some 17) (Some 96)) 3]\<rparr>"

lemma insort_key_map_same:
  assumes "\<And>x. f (g x) = f x"
  shows "insort_key f (g x) (map g ys) = map g (insort_key f x ys)"
  by (induction ys) (simp_all add: assms)

lemma sort_key_map_same:
  assumes "\<And>x. f (g x) = f x"
  shows "sort_key f (map g xs) = map g (sort_key f xs)"
  by (induction xs) (simp_all add: insort_key_map_same [of f g] assms)

lemma float_or_none_null_zero: "float_or_none rt (null_zero d) = float_or_none rt d"
  by (simp add: float_or_none_def null_zero_def)

lemma segment_row_null_zero: "segment_row rt (null_zero_segment seg) = segment_row rt seg"
  by (simp add: segment_row_def null_zero_segment_def null_zero_stop_def float_or_none_null_zero)

lemma segment_step_null_zero: "segment_step rt (null_zero_segment seg) = segment_step rt seg"
  by (rule ext)
    (simp add: segment_step_def segment_row_null_zero,
     simp add: null_zero_segment_def null_zero_stop_def float_or_none_null_zero)

lemma line_segments_null_zero:
  "line_segments (null_zero_store db) l = map null_zero_segment (line_segments db l)"
  by (simp add: line_segments_def null_zero_store_def filter_map comp_def null_zero_segment_def)

lemma first_segment_null_zero:
  "first_segment (null_zero_store db) l stop = map_option null_zero_segment (first_segment db l stop)"
proof -
  have f: "filter (\<lambda>s. bs_id (bus_stop s) = bs_id stop) (map null_zero_segment segs) =
      map null_zero_segment (filter (\<lambda>s. bs_id (bus_stop s) = bs_id stop) segs)" for segs
    by (simp add: filter_map comp_def null_zero_segment_def null_zero_stop_def)
  have s: "sort_key order (map null_zero_segment segs) = map null_zero_segment (sort_key order segs)"
    for segs
    by (rule sort_key_map_same) (simp add: null_zero_segment_def)
  show ?thesis
    by (simp add: first_segment_def line_segments_null_zero f s split: list.splits)
qed

lemma slice_segments_null_zero:
  "slice_segments (null_zero_store db) l (null_zero_segment a) (null_zero_segment b) =
     map null_zero_segment (slice_segments db l a b)"
proof -
  have o: "order (null_zero_segment s) = order s" for s
    by (simp add: null_zero_segment_def)
  have f: "filter (\<lambda>s. P (order s)) (map null_zero_segment segs) =
      map null_zero_segment (filter (\<lambda>s. P (order s)) segs)" for segs P
    by (simp add: filter_map comp_def o)
  have up: "sort_key order (map null_zero_segment segs) = map null_zero_segment (sort_key order segs)"
    for segs
    by (rule sort_key_map_same) (simp add: o)
  have dn: "sort_key (\<lambda>s. - order s) (map null_zero_segment segs) =
      map null_zero_segment (sort_key (\<lambda>s. - order s) segs)" for segs
    by (rule sort_key_map_same) (simp add: o)
  show ?thesis
    using f [of "\<lambda>k. order a \<le> k \<and> k \<le> order b"] f [of "\<lambda>k. k \<le> order a \<and> order b \<le> k"]
    by (simp add: slice_segments_def line_segments_null_zero o up dn)
qed

lemma get_segment_details_null_zero:
  "get_segment_details rt (null_zero_store db) l X Y = get_segment_details rt db l X Y"
proof (cases "first_segment db l X")
  case None
  then show ?thesis
    by (simp add: get_segment_details_def first_segment_null_zero)
next
  case sx: (Some sx)
  show ?thesis
  proof (cases "first_segment db l Y")
    case None
    with sx show ?thesis
      by (simp add: get_segment_details_def first_segment_null_zero)
  next
    case sy: (Some sy)
    have "fold (segment_step rt) (map null_zero_segment segs) acc = fold (segment_step rt) segs acc"
      for segs acc
      by (simp add: fold_map comp_def segment_step_null_zero)
    with sx sy show ?thesis
      by (simp add: get_segment_details_def first_segment_null_zero slice_segments_null_zero Let_def)
  qed
qed

text \<open>
  C10. A latitude or longitude that is stored as zero is handled as one that is NULL:
  the result for a store equals the result for the store with every zero coordinate
  replaced by NULL; a stop with a zero coordinate adds no point to the coordinate
  sequence for the routing service, and the zero coordinate is displayed as absent.
\<close>

theorem zero_coordinate_is_absent:
  "get_segment_details rt db l X Y = get_segment_details rt (null_zero_store db) l X Y \<and>
   (latitude (bus_stop seg) = Some 0 \<or> longitude (bus_stop seg) = Some 0 \<longrightarrow>
      fst (segment_step rt seg acc) = fst acc) \<and>
   (latitude (bus_stop seg) = Some 0 \<longrightarrow> row_latitude (segment_row rt seg) = None) \<and>
   (longitude (bus_stop seg) = Some 0 \<longrightarrow> row_longitude (segment_row rt seg) = None)"
  by (auto simp: get_segment_details_null_zero segment_step_def segment_row_def float_or_none_def)

theorem zero_coordinate_is_absent_witness:
  "latitude (bus_stop (mk_segment 1 (mk_line 1) equator_stop 1)) = Some 0 \<and>
   fst (segment_step (exact_runtime (Body ok_answer)) (mk_segment 1 (mk_line 1) equator_stop 1) ([], [])) = [] \<and>
   row_latitude (segment_row (exact_runtime (Body ok_answer)) (mk_segment 1 (mk_line 1) equator_stop 1)) = None \<and>
   get_segment_details (exact_runtime (Body ok_answer)) equator_db (mk_line 1) equator_stop
       (mk_stop 3 ''C'' (Some 17) (Some 96)) =
     get_segment_details (exact_runtime (Body ok_answer)) (null_zero_store equator_db) (mk_line 1)
       equator_stop (mk_stop 3 ''C'' (Some 17) (Some 96))"
  using zero_coordinate_is_absent [of "exact_runtime (Body ok_answer)" equator_db "mk_line 1"
      equator_stop "mk_stop 3 ''C'' (Some 17) (Some 96)" "mk_segment 1 (mk_line 1) equator_stop 1" "([], [])"]
  by (simp add: mk_segment_def equator_stop_def mk_stop_def)

subsection \<open>Facts on positions in a sorted line\<close>

lemma find_positions_snoc:
  "find_positions X Y (segs @ [s]) =
     ((if bs_id (bus_stop s) = bs_id X then Some (length segs) else fst (find_positions X Y segs)),
      (if bs_id (bus_stop s) = bs_id Y then Some (length segs) else snd (find_positions X Y segs)))"
  by (simp add: find_positions_def enumerate_append_eq split_beta)

lemma find_positions_fst:
  "(fst (find_positions X Y segs) = None \<longleftrightarrow> (\<forall>s \<in> set segs. bs_id (bus_stop s) \<noteq> bs_id X)) \<and>
   (\<forall>i. fst (find_positions X Y segs) = Some i \<longrightarrow>
        i < length segs \<and> bs_id (bus_stop (segs ! i)) = bs_id X)"
proof (induction segs rule: rev_induct)
  case Nil
  then show ?case by (simp add: find_positions_def)
next
  case (snoc s segs)
  then show ?case
    by (auto simp: find_positions_snoc nth_append less_Suc_eq)
qed

lemma find_positions_snd:
  "(snd (find_positions X Y segs) = None \<longleftrightarrow> (\<forall>s \<in> set segs. bs_id (bus_stop s) \<noteq> bs_id Y)) \<and>
   (\<forall>i. snd (find_positions X Y segs) = Some i \<longrightarrow>
        i < length segs \<and> bs_id (bus_stop (segs ! i)) = bs_id Y)"
proof (induction segs rule: rev_induct)
  case Nil
  then show ?case by (simp add: find_positions_def)
next
  case (snoc s segs)
  then show ?case
    by (auto simp: find_positions_snoc nth_append less_Suc_eq)
qed

lemma sorted_slice_filter:
  fixes f :: "'a \<Rightarrow> int"
  assumes s: "sorted (map f S)" and d: "distinct (map f S)"
    and lh: "lo \<le> hi" and h: "hi < length S"
  shows "take (hi + 1 - lo) (drop lo S) = filter (\<lambda>x. f (S ! lo) \<le> f x \<and> f x \<le> f (S ! hi)) S"
proof -
  let ?P = "\<lambda>x. f (S ! lo) \<le> f x \<and> f x \<le> f (S ! hi)"
  have strict: "sorted_wrt (<) (map f S)"
    using s d by (simp add: strict_sorted_iff)
  have mono: "f (S ! i) < f (S ! j)" if "i < j" and "j < length S" for i j
    using sorted_wrt_nth_less [OF strict, of i j] that by simp
  have le: "f (S ! i) \<le> f (S ! j)" if "i \<le> j" and "j < length S" for i j
    using mono [of i j] that by (cases "i = j") auto
  have split: "S = take lo S @ take (hi + 1 - lo) (drop lo S) @ drop (hi + 1) S"
  proof -
    have "drop lo S = take (hi + 1 - lo) (drop lo S) @ drop (hi + 1 - lo) (drop lo S)"
      by (simp only: append_take_drop_id)
    moreover have "drop (hi + 1 - lo) (drop lo S) = drop (hi + 1) S"
      using lh by simp
    ultimately show ?thesis
      by (metis append_take_drop_id)
  qed
  have before: "filter ?P (take lo S) = []"
  proof -
    have "\<not> ?P x" if "x \<in> set (take lo S)" for x
    proof -
      from that obtain k where "k < lo" and "k < length S" and "x = S ! k"
        by (auto simp: in_set_conv_nth)
      with mono [of k lo] lh h show ?thesis by auto
    qed
    then show ?thesis by (simp add: filter_empty_conv)
  qed
  have after: "filter ?P (drop (hi + 1) S) = []"
  proof -
    have "\<not> ?P x" if "x \<in> set (drop (hi + 1) S)" for x
    proof -
      from that obtain k where k: "k < length S - (hi + 1)" and x: "x = S ! (hi + 1 + k)"
        by (auto simp: in_set_conv_nth)
      from k have "hi + 1 + k < length S" by simp
      with mono [of hi "hi + 1 + k"] x show ?thesis by auto
    qed
    then show ?thesis by (simp add: filter_empty_conv)
  qed
  have middle: "filter ?P (take (hi + 1 - lo) (drop lo S)) = take (hi + 1 - lo) (drop lo S)"
  proof -
    have "?P x" if "x \<in> set (take (hi + 1 - lo) (drop lo S))" for x
    proof -
      from that obtain k where k: "k < hi + 1 - lo" and kl: "k < length S - lo"
        and x: "x = S ! (lo + k)"
        by (auto simp: in_set_conv_nth)
      from kl have "lo + k < length S" by simp
      have "f (S ! lo) \<le> f (S ! (lo + k))"
        using le [of lo "lo + k"] \<open>lo + k < length S\<close> by simp
      moreover have "f (S ! (lo + k)) \<le> f (S ! hi)"
        using le [of "lo + k" hi] k h by simp
      ultimately show ?thesis using x by simp
    qed
    then show ?thesis by (simp add: filter_id_conv)
  qed
  have "filter ?P S =
      filter ?P (take lo S) @ filter ?P (take (hi + 1 - lo) (drop lo S)) @ filter ?P (drop (hi + 1) S)"
    by (subst split) (simp only: filter_append)
  then show ?thesis
    by (simp only: before after middle append_Nil append_Nil2)
qed

lemma first_segment_single:
  assumes "filter (\<lambda>s. bs_id (bus_stop s) = bs_id X) (line_segments db l) = [sx]"
  shows "first_segment db l X = Some sx"
  using assms by (simp add: first_segment_def)

text \<open>
  C5 as stated fails when the start stop lies after the end stop on the line: the
  stops-between query swaps the two positions and lists the stops in increasing order,
  while the Segment Extractor lists them from the start to the end, in decreasing order.
\<close>

theorem find_stops_between_direction_counterexample:
  "map (\<lambda>b. map bs_id (br_stops b))
       (find_stops_between two_stop_db (mk_stop 2 ''Y'' None None) (mk_stop 1 ''X'' None None)) = [[1, 2]] \<and>
   map row_id (route_stops (the (projr (get_segment_details (exact_runtime Transport_failure)
       two_stop_db (mk_line 1) (mk_stop 2 ''Y'' None None) (mk_stop 1 ''X'' None None))))) = [2, 1]"
  by (simp add: two_stop_db_def mk_stop_def mk_line_def mk_segment_def
      get_segment_details_def first_segment_def line_segments_def slice_segments_def
      segment_step_def segment_row_def float_or_none_def get_route_details_from_osrm_def
      valid_coords_def bind_err_def exact_runtime_def find_stops_between_def
      stops_between_line_def find_positions_def common_bus_lines_def List.map_filter_def
      enumerate_eq_zip)

text \<open>
  C5, amended. On a line whose segments have pairwise distinct order values and on which
  each of the two stops occurs once, the stops-between query reports the increasing-order
  inclusive slice between the two stops, whichever of them is the start: its stops and
  order values are those the Segment Extractor produces for the two stops taken with the
  one of lower order first. For a line of the store this entry is in the result list.
\<close>

theorem stops_between_line_slice:
  assumes d: "distinct (map order (line_segments db l))"
    and ux: "filter (\<lambda>s. bs_id (bus_stop s) = bs_id X) (line_segments db l) = [sx]"
    and uy: "filter (\<lambda>s. bs_id (bus_stop s) = bs_id Y) (line_segments db l) = [sy]"
  shows "\<exists>b r. stops_between_line db l X Y = Some b \<and>
           get_segment_details rt db l (if order sx \<le> order sy then X else Y)
             (if order sx \<le> order sy then Y else X) = Inr (Some r) \<and>
           map bs_id (br_stops b) = map row_id (route_stops r) \<and>
           br_orders b = map row_order (route_stops r) \<and>
           (l \<in> set (bus_lines db) \<longrightarrow> b \<in> set (find_stops_between db X Y))"
proof -
  define S where "S = sort_key order (line_segments db l)"
  have sorted: "sorted (map order S)" and dist: "distinct (map order S)"
  proof -
    show "sorted (map order S)" unfolding S_def by (rule sorted_sort_key)
    from d have "distinct (line_segments db l)" and "inj_on order (set (line_segments db l))"
      by (simp_all add: distinct_map)
    then show "distinct (map order S)"
      by (simp add: S_def distinct_map)
  qed
  have strict: "sorted_wrt (<) (map order S)"
    using sorted dist by (simp add: strict_sorted_iff)
  have fx: "filter (\<lambda>s. bs_id (bus_stop s) = bs_id X) S = [sx]"
    and fy: "filter (\<lambda>s. bs_id (bus_stop s) = bs_id Y) S = [sy]"
    by (simp_all add: S_def filter_sort ux uy)
  have "sx \<in> set (filter (\<lambda>s. bs_id (bus_stop s) = bs_id X) S)"
    and "sy \<in> set (filter (\<lambda>s. bs_id (bus_stop s) = bs_id Y) S)"
    by (simp_all only: fx fy list.set_intros)
  then have mx: "sx \<in> set S" "bs_id (bus_stop sx) = bs_id X"
    and my: "sy \<in> set S" "bs_id (bus_stop sy) = bs_id Y"
    by simp_all
  obtain i where i: "fst (find_positions X Y S) = Some i"
    using find_positions_fst [of X Y S] mx by (cases "fst (find_positions X Y S)") auto
  obtain j where j: "snd (find_positions X Y S) = Some j"
    using find_positions_snd [of X Y S] my by (cases "snd (find_positions X Y S)") auto
  from i have il: "i < length S" and im: "bs_id (bus_stop (S ! i)) = bs_id X"
    using find_positions_fst [of X Y S] by auto
  from j have jl: "j < length S" and jm: "bs_id (bus_stop (S ! j)) = bs_id Y"
    using find_positions_snd [of X Y S] by auto
  have "S ! i \<in> set (filter (\<lambda>s. bs_id (bus_stop s) = bs_id X) S)"
    using il im by simp
  then have si: "S ! i = sx" by (simp only: fx) simp
  have "S ! j \<in> set (filter (\<lambda>s. bs_id (bus_stop s) = bs_id Y) S)"
    using jl jm by simp
  then have sj: "S ! j = sy" by (simp only: fy) simp
  have pos: "find_positions X Y S = (Some i, Some j)"
    using i j by (cases "find_positions X Y S") simp
  have mono: "order (S ! a) < order (S ! b)" if "a < b" and "b < length S" for a b
    using sorted_wrt_nth_less [OF strict, of a b] that by simp
  have ord: "order sx \<le> order sy \<longleftrightarrow> i \<le> j"
  proof
    assume "order sx \<le> order sy"
    show "i \<le> j"
    proof (rule ccontr)
      assume "\<not> i \<le> j"
      then have "order (S ! j) < order (S ! i)" using mono [of j i] il by simp
      with si sj \<open>order sx \<le> order sy\<close> show False by simp
    qed
  next
    assume "i \<le> j"
    then show "order sx \<le> order sy"
      using mono [of i j] jl si sj by (cases "i = j") auto
  qed
  define lo hi where "lo = (if i > j then j else i)" and "hi = (if i > j then i else j)"
  define A B sa sb where "A = (if order sx \<le> order sy then X else Y)"
    and "B = (if order sx \<le> order sy then Y else X)"
    and "sa = (if order sx \<le> order sy then sx else sy)"
    and "sb = (if order sx \<le> order sy then sy else sx)"
  have lohi: "lo \<le> hi" "hi < length S" and slo: "S ! lo = sa" and shi: "S ! hi = sb"
    using il jl si sj ord by (auto simp: lo_def hi_def sa_def sb_def)
  have ab: "order sa \<le> order sb"
    by (simp add: sa_def sb_def)
  define between where "between = take (hi + 1 - lo) (drop lo S)"
  have between: "between = filter (\<lambda>s. order sa \<le> order s \<and> order s \<le> order sb) S"
    unfolding between_def
    using sorted_slice_filter [OF sorted dist lohi] by (simp add: slo shi)
  have slice: "slice_segments db l sa sb = between"
    using ab by (simp add: slice_segments_def between S_def filter_sort)
  have fa: "first_segment db l A = Some sa" and fb: "first_segment db l B = Some sb"
    using first_segment_single [OF ux] first_segment_single [OF uy]
    by (auto simp: A_def B_def sa_def sb_def)
  obtain r where r: "get_segment_details rt db l A B = Inr (Some r)"
    and rows: "route_stops r = map (segment_row rt) between"
    using get_segment_details_rows [OF fa fb, of rt] slice by auto
  define b where "b = \<lparr>br_bus_line = l, br_stops = map bus_stop between,
      br_total_stops = length between, br_orders = map order between\<rparr>"
  have sb: "stops_between_line db l X Y = Some b"
    by (simp add: stops_between_line_def S_def [symmetric] pos Let_def b_def between_def
        lo_def hi_def)
  have "map bs_id (br_stops b) = map row_id (route_stops r)"
    and "br_orders b = map row_order (route_stops r)"
    by (simp_all add: b_def rows segment_row_def)
  moreover have "b \<in> set (find_stops_between db X Y)" if "l \<in> set (bus_lines db)"
  proof -
    have "sx \<in> set (line_segments db l)" and "sy \<in> set (line_segments db l)"
      using mx(1) my(1) by (simp_all add: S_def)
    with mx(2) my(2) that have "l \<in> set (common_bus_lines db X Y)"
      by (auto simp: common_bus_lines_def list_ex_iff)
    with sb show ?thesis
      by (force simp: find_stops_between_def List.map_filter_def)
  qed
  ultimately show ?thesis
    using sb r by (auto simp: A_def B_def)
qed

theorem stops_between_line_slice_witness:
  "\<exists>b r. stops_between_line two_stop_db (mk_line 1) (mk_stop 2 ''Y'' None None)
             (mk_stop 1 ''X'' None None) = Some b \<and>
      get_segment_details (exact_runtime Transport_failure) two_stop_db (mk_line 1)
        (mk_stop 1 ''X'' None None) (mk_stop 2 ''Y'' None None) = Inr (Some r) \<and>
      map bs_id (br_stops b) = map row_id (route_stops r) \<and>
      br_orders b = map row_order (route_stops r) \<and>
      b \<in> set (find_stops_between two_stop_db (mk_stop 2 ''Y'' None None) (mk_stop 1 ''X'' None None))"
proof -
  have d: "distinct (map order (line_segments two_stop_db (mk_line 1)))"
    by (simp add: two_stop_db_def line_segments_def mk_segment_def mk_line_def)
  have y: "filter (\<lambda>s. bs_id (bus_stop s) = bs_id (mk_stop 2 ''Y'' None None))
      (line_segments two_stop_db (mk_line 1)) = [mk_segment 2 (mk_line 1) (mk_stop 2 ''Y'' None None) 2]"
    by (simp add: two_stop_db_def line_segments_def mk_segment_def mk_line_def mk_stop_def)
  have x: "filter (\<lambda>s. bs_id (bus_stop s) = bs_id (mk_stop 1 ''X'' None None))
      (line_segments two_stop_db (mk_line 1)) = [mk_segment 1 (mk_line 1) (mk_stop 1 ''X'' None None) 1]"
    by (simp add: two_stop_db_def line_segments_def mk_segment_def mk_line_def mk_stop_def)
  have l: "mk_line 1 \<in> set (bus_lines two_stop_db)"
    by (simp add: two_stop_db_def)
  from stops_between_line_slice [OF d y x, of "exact_runtime Transport_failure"] l
  show ?thesis
    by (simp add: mk_segment_def)
qed

subsection \<open>The graph of the network\<close>

text \<open>A \<^verbatim>\<open>defaultdict(list)\<close>: the keys in the order of their first use, each with
  its list; a key that is absent reads as the empty list.\<close>

fun dd_append :: "('k \<times> 'v list) list \<Rightarrow> 'k \<Rightarrow> 'v \<Rightarrow> ('k \<times> 'v list) list" where
  "dd_append [] k v = [(k, [v])]"
| "dd_append ((k', vs) # rest) k v =
     (if k' = k then (k', vs @ [v]) # rest else (k', vs) # dd_append rest k v)"

definition dd_get :: "('k \<times> 'v list) list \<Rightarrow> 'k \<Rightarrow> 'v list" where
  "dd_get d k = (case map_of d k of None \<Rightarrow> [] | Some vs \<Rightarrow> vs)"

text \<open>An entry of an adjacency list:
  \<^verbatim>\<open>{'stop_id': ..., 'line_id': ..., 'line_number': ...}\<close>.\<close>

record neighbor =
  nb_stop_id :: int
  nb_line_id :: int
  nb_line_number :: int

type_synonym graph = "(int \<times> neighbor list) list"

text \<open>\<^verbatim>\<open>list(RouteSegment.objects.all().select_related('bus_stop', 'bus_line'))\<close>: the
  rows ordered by line and then by order, as \<^verbatim>\<open>Meta.ordering\<close> says.\<close>

definition all_route_segments :: "store \<Rightarrow> RouteSegment list" where
  "all_route_segments db = sort_key (\<lambda>s. (bl_id (bus_line s), order s)) (route_segments db)"

text \<open>
  \<^verbatim>\<open>
  segments_by_line = defaultdict(list)
  for segment in all_route_segments:
      segments_by_line[segment.bus_line_id].append(segment)
  \<close>
\<close>

definition segments_by_line :: "store \<Rightarrow> (int \<times> RouteSegment list) list" where
  "segments_by_line db =
     fold (\<lambda>segment d. dd_append d (bl_id (bus_line segment)) segment) (all_route_segments db) []"

text \<open>
  \<^verbatim>\<open>
  for i in range(len(segments) - 1):
      stop_a = segments[i].bus_stop
      stop_b = segments[i + 1].bus_stop
      bus_line_number = segments[i].bus_line.line_number
      graph[stop_a.id].append({'stop_id': stop_b.id, 'line_id': bus_line_id, ...})
      graph[stop_b.id].append({'stop_id': stop_a.id, 'line_id': bus_line_id, ...})
  \<close>
\<close>

fun add_line_edges :: "int \<Rightarrow> RouteSegment list \<Rightarrow> graph \<Rightarrow> graph" where
  "add_line_edges bus_line_id (a # b # rest) g =
     add_line_edges bus_line_id (b # rest)
       (dd_append
          (dd_append g (bs_id (bus_stop a))
             \<lparr>nb_stop_id = bs_id (bus_stop b), nb_line_id = bus_line_id,
              nb_line_number = line_number (bus_line a)\<rparr>)
          (bs_id (bus_stop b))
          \<lparr>nb_stop_id = bs_id (bus_stop a), nb_line_id = bus_line_id,
           nb_line_number = line_number (bus_line a)\<rparr>)"
| "add_line_edges bus_line_id segments g = g"

text \<open>The loop over \<^verbatim>\<open>segments_by_line.items()\<close>, with
  \<^verbatim>\<open>segments.sort(key=lambda s: s.order)\<close> first.\<close>

definition build_graph :: "store \<Rightarrow> graph" where
  "build_graph db =
     fold (\<lambda>(bus_line_id, segments) g. add_line_edges bus_line_id (sort_key order segments) g)
       (segments_by_line db) []"

subsection \<open>The search for a path with few transfers\<close>

text \<open>A recorded cost: a number of transfers, or \<^verbatim>\<open>float('inf')\<close>.\<close>

datatype cost = Fin nat | Inf

fun cost_less :: "nat \<Rightarrow> cost \<Rightarrow> bool" where
  "cost_less n (Fin m) = (n < m)"
| "cost_less n Inf = True"

fun cost_greater :: "nat \<Rightarrow> cost \<Rightarrow> bool" where
  "cost_greater n (Fin m) = (m < n)"
| "cost_greater n Inf = False"

text \<open>The variables of the search: the two dictionaries and the heap. An entry of the
  heap is \<^verbatim>\<open>(cost, stop_id, line_id)\<close>; tuples compare lexicographically, and the
  line of the first entry is \<^verbatim>\<open>None\<close>. The heap is kept as the list of its entries:
  \<^verbatim>\<open>heappop\<close> removes a least entry.\<close>

record search_state =
  distances :: "int \<rightharpoonup> cost"
  predecessors :: "int \<rightharpoonup> (int \<times> int) option"
  priority_queue :: "(nat \<times> int \<times> int option) list"

definition heappush :: "'a list \<Rightarrow> 'a \<Rightarrow> 'a list" where
  "heappush q x = q @ [x]"

definition heappop :: "('a::linorder) list \<Rightarrow> ('a \<times> 'a list) option" where
  "heappop q = (case q of [] \<Rightarrow> None | x # xs \<Rightarrow> let m = fold min xs x in Some (m, remove1 m q))"

text \<open>
  The body of the loop over the neighbours of the current stop:
  \<^verbatim>\<open>
  transfer_cost = 1 if current_line_id is not None and current_line_id != neighbor_line_id else 0
  new_cost = cost + transfer_cost
  if new_cost < distances[neighbor_stop_id]:
      distances[neighbor_stop_id] = new_cost
      predecessors[neighbor_stop_id] = (current_stop_id, neighbor_line_id)
      heapq.heappush(priority_queue, (new_cost, neighbor_stop_id, neighbor_line_id))
  \<close>
  Reading \<^verbatim>\<open>distances\<close> at a stop that is no key raises \<^verbatim>\<open>KeyError\<close>.
\<close>

definition relax :: "nat \<Rightarrow> int \<Rightarrow> int option \<Rightarrow> neighbor \<Rightarrow> search_state \<Rightarrow> py_error + search_state" where
  "relax cost current_stop_id current_line_id nb st =
     (let transfer_cost =
            (if current_line_id \<noteq> None \<and> current_line_id \<noteq> Some (nb_line_id nb) then 1 else 0);
          new_cost = cost + transfer_cost
      in case distances st (nb_stop_id nb) of
           None \<Rightarrow> Inl KeyError
         | Some d \<Rightarrow>
             if cost_less new_cost d
             then Inr (st\<lparr>distances := (distances st)(nb_stop_id nb \<mapsto> Fin new_cost),
                         predecessors := (predecessors st)(nb_stop_id nb \<mapsto>
                                           Some (current_stop_id, nb_line_id nb)),
                         priority_queue := heappush (priority_queue st)
                                             (new_cost, nb_stop_id nb, Some (nb_line_id nb))\<rparr>)
             else Inr st)"

fun relax_all ::
  "nat \<Rightarrow> int \<Rightarrow> int option \<Rightarrow> neighbor list \<Rightarrow> search_state \<Rightarrow> py_error + search_state" where
  "relax_all cost current_stop_id current_line_id [] st = Inr st"
| "relax_all cost current_stop_id current_line_id (nb # nbs) st =
     (case relax cost current_stop_id current_line_id nb st of
        Inl e \<Rightarrow> Inl e
      | Inr st' \<Rightarrow> relax_all cost current_stop_id current_line_id nbs st')"

text \<open>The measure of the search loop: over the stops that occur as neighbours in the
  graph, the number of those at infinite cost, then the sum of the finite costs, then the
  length of the heap.\<close>

definition graph_targets :: "graph \<Rightarrow> int list" where
  "graph_targets g = map nb_stop_id (concat (map snd g))"

definition inf_weight :: "search_state \<Rightarrow> int \<Rightarrow> nat" where
  "inf_weight st n = (if distances st n = Some Inf then 1 else 0)"

definition fin_weight :: "search_state \<Rightarrow> int \<Rightarrow> nat" where
  "fin_weight st n = (case distances st n of Some (Fin k) \<Rightarrow> k | _ \<Rightarrow> 0)"

definition search_measure :: "graph \<Rightarrow> search_state \<Rightarrow> nat \<times> nat \<times> nat" where
  "search_measure g st =
     (sum_list (map (inf_weight st) (graph_targets g)),
      sum_list (map (fin_weight st) (graph_targets g)),
      length (priority_queue st))"

subsection \<open>The search loop terminates\<close>

lemma sum_list_map_strict:
  fixes f f' :: "'a \<Rightarrow> nat"
  assumes "\<And>y. y \<in> set xs \<Longrightarrow> f' y \<le> f y" and "x \<in> set xs" and "f' x < f x"
  shows "sum_list (map f' xs) < sum_list (map f xs)"
  using assms
proof (induction xs)
  case Nil
  then show ?case by simp
next
  case (Cons a xs)
  have le: "sum_list (map f' xs) \<le> sum_list (map f xs)"
    by (rule sum_list_mono) (simp add: Cons.prems(1))
  show ?case
  proof (cases "x = a")
    case True
    with Cons.prems(3) le show ?thesis by simp
  next
    case False
    with Cons.prems have "x \<in> set xs" by simp
    then have "sum_list (map f' xs) < sum_list (map f xs)"
      using Cons.IH Cons.prems by simp
    moreover have "f' a \<le> f a" using Cons.prems(1) by simp
    ultimately show ?thesis by simp
  qed
qed

lemma fold_min_in:
  fixes x :: "'a::linorder"
  shows "fold min xs x \<in> set (x # xs)"
proof (induction xs arbitrary: x)
  case Nil
  then show ?case by simp
next
  case (Cons y ys)
  have "fold min ys (min y x) \<in> set (min y x # ys)"
    by (rule Cons.IH)
  moreover have "min y x = x \<or> min y x = y"
    by (simp add: min_def)
  ultimately show ?case
    by auto
qed

lemma heappop_Some:
  assumes "heappop q = Some (m, rest)"
  shows "m \<in> set q \<and> rest = remove1 m q \<and> length rest < length q"
proof -
  from assms obtain x xs where q: "q = x # xs" and m: "m = fold min xs x" and r: "rest = remove1 m q"
    by (auto simp: heappop_def Let_def split: list.splits)
  have "m \<in> set q"
    using fold_min_in [of xs x] q m by simp
  moreover have "length (remove1 m q) < length q"
  proof -
    have "length (remove1 m q) = length q - 1"
      using \<open>m \<in> set q\<close> by (simp add: length_remove1)
    moreover have "0 < length q" using q by simp
    ultimately show ?thesis by arith
  qed
  ultimately show ?thesis using r by simp
qed

definition cost_order :: "((nat \<times> nat) \<times> (nat \<times> nat)) set" where
  "cost_order = less_than <*lex*> less_than"

definition cost_measure :: "graph \<Rightarrow> search_state \<Rightarrow> nat \<times> nat" where
  "cost_measure g st =
     (sum_list (map (inf_weight st) (graph_targets g)),
      sum_list (map (fin_weight st) (graph_targets g)))"

lemma relax_measure:
  assumes r: "relax c cur line nb st = Inr st'"
    and t: "nb_stop_id nb \<in> set (graph_targets g)"
  shows "st' = st \<or> (cost_measure g st', cost_measure g st) \<in> cost_order"
proof -
  define new_cost where
    "new_cost = c + (if line \<noteq> None \<and> line \<noteq> Some (nb_line_id nb) then 1 else 0)"
  define n where "n = nb_stop_id nb"
  from r obtain d where d: "distances st n = Some d"
    by (auto simp: relax_def n_def Let_def split: option.splits)
  show ?thesis
  proof (cases "cost_less new_cost d")
    case False
    with r d show ?thesis
      by (simp add: relax_def n_def new_cost_def Let_def)
  next
    case True
    with r d have dist': "distances st' = (distances st)(n \<mapsto> Fin new_cost)"
      by (auto simp: relax_def n_def new_cost_def Let_def)
    show ?thesis
    proof (cases d)
      case Inf
      have "inf_weight st' y \<le> inf_weight st y" for y
        using d Inf by (simp add: inf_weight_def dist')
      moreover have "inf_weight st' n < inf_weight st n"
        using d Inf by (simp add: inf_weight_def dist')
      ultimately have "sum_list (map (inf_weight st') (graph_targets g)) <
          sum_list (map (inf_weight st) (graph_targets g))"
        using t by (intro sum_list_map_strict [where x = n]) (simp_all add: n_def)
      then show ?thesis
        by (simp add: cost_measure_def cost_order_def)
    next
      case (Fin k)
      with True have lt: "new_cost < k" by simp
      have "inf_weight st' y = inf_weight st y" for y
        using d Fin by (simp add: inf_weight_def dist')
      then have eq: "map (inf_weight st') (graph_targets g) = map (inf_weight st) (graph_targets g)"
        by simp
      have "fin_weight st' y \<le> fin_weight st y" for y
        using d Fin lt by (simp add: fin_weight_def dist')
      moreover have "fin_weight st' n < fin_weight st n"
        using d Fin lt by (simp add: fin_weight_def dist')
      ultimately have "sum_list (map (fin_weight st') (graph_targets g)) <
          sum_list (map (fin_weight st) (graph_targets g))"
        using t by (intro sum_list_map_strict [where x = n]) (simp_all add: n_def)
      then show ?thesis
        by (simp add: cost_measure_def cost_order_def eq)
    qed
  qed
qed

lemma cost_measure_queue: "cost_measure g (st\<lparr>priority_queue := q\<rparr>) = cost_measure g st"
proof -
  have "inf_weight (st\<lparr>priority_queue := q\<rparr>) = inf_weight st"
    and "fin_weight (st\<lparr>priority_queue := q\<rparr>) = fin_weight st"
    by (rule ext, simp add: inf_weight_def fin_weight_def)+
  then show ?thesis by (simp add: cost_measure_def)
qed

lemma cost_order_trans:
  "(a, b) \<in> cost_order \<Longrightarrow> (b, c) \<in> cost_order \<Longrightarrow> (a, c) \<in> cost_order"
  unfolding cost_order_def by (meson trans_lex_prod trans_less_than transD)

lemma relax_all_measure:
  assumes "relax_all c cur line nbs st = Inr st'"
    and "\<And>nb. nb \<in> set nbs \<Longrightarrow> nb_stop_id nb \<in> set (graph_targets g)"
  shows "st' = st \<or> (cost_measure g st', cost_measure g st) \<in> cost_order"
  using assms
proof (induction nbs arbitrary: st)
  case Nil
  then show ?case by simp
next
  case (Cons nb nbs)
  from Cons.prems(1) obtain st1 where s1: "relax c cur line nb st = Inr st1"
    and s2: "relax_all c cur line nbs st1 = Inr st'"
    by (auto split: sum.splits)
  have a: "st1 = st \<or> (cost_measure g st1, cost_measure g st) \<in> cost_order"
    using relax_measure [OF s1] Cons.prems(2) by simp
  have b: "st' = st1 \<or> (cost_measure g st', cost_measure g st1) \<in> cost_order"
    using Cons.IH [OF s2] Cons.prems(2) by simp
  from a b show ?case
    using cost_order_trans by blast
qed

lemma dd_get_targets:
  assumes "nb \<in> set (dd_get g k)"
  shows "nb_stop_id nb \<in> set (graph_targets g)"
proof -
  show ?thesis
  proof (cases "map_of g k")
    case None
    with assms show ?thesis by (simp add: dd_get_def)
  next
    case (Some vs)
    with assms have "nb \<in> set vs" by (simp add: dd_get_def)
    moreover from Some have "(k, vs) \<in> set g" by (rule map_of_SomeD)
    ultimately show ?thesis
      by (force simp: graph_targets_def)
  qed
qed

text \<open>
  The loop of the search:
  \<^verbatim>\<open>
  while priority_queue:
      cost, current_stop_id, current_line_id = heapq.heappop(priority_queue)
      if cost > distances[current_stop_id]:
          continue
      if current_stop_id == end_stop_id:
          shortest_path_found = True
          break
      for neighbor in graph[current_stop_id]:
          ...
  \<close>
  The result is the flag \<^verbatim>\<open>shortest_path_found\<close> with the final state, or an exception.
\<close>

function dijkstra :: "graph \<Rightarrow> int \<Rightarrow> search_state \<Rightarrow> py_error + bool \<times> search_state" where
  "dijkstra g end_stop_id st =
     (case heappop (priority_queue st) of
        None \<Rightarrow> Inr (False, st)
      | Some (entry, rest) \<Rightarrow>
          (case distances st (fst (snd entry)) of
             None \<Rightarrow> Inl KeyError
           | Some d \<Rightarrow>
               if cost_greater (fst entry) d
               then dijkstra g end_stop_id (st\<lparr>priority_queue := rest\<rparr>)
               else if fst (snd entry) = end_stop_id
               then Inr (True, st\<lparr>priority_queue := rest\<rparr>)
               else (case relax_all (fst entry) (fst (snd entry)) (snd (snd entry))
                            (dd_get g (fst (snd entry))) (st\<lparr>priority_queue := rest\<rparr>) of
                       Inl e \<Rightarrow> Inl e
                     | Inr st' \<Rightarrow> dijkstra g end_stop_id st')))"
  by pat_completeness auto
termination
proof (relation "inv_image (cost_order <*lex*> less_than)
    (\<lambda>(g, e, st). (cost_measure g st, length (priority_queue st)))")
  show "wf (inv_image (cost_order <*lex*> less_than)
      (\<lambda>(g, e, st). (cost_measure g st, length (priority_queue st))))"
    unfolding cost_order_def by (intro wf_inv_image wf_lex_prod wf_less_than)
next
  fix g :: graph and end_stop_id :: int and st :: search_state and x2 entry rest d
  assume "heappop (priority_queue st) = Some x2" and "(entry, rest) = x2"
  then have "heappop (priority_queue st) = Some (entry, rest)"
    by simp
  from heappop_Some [OF this] have "length rest < length (priority_queue st)"
    by blast
  moreover have "cost_measure g (st\<lparr>priority_queue := rest\<rparr>) = cost_measure g st"
    by (rule cost_measure_queue)
  ultimately show "((g, end_stop_id, st\<lparr>priority_queue := rest\<rparr>), g, end_stop_id, st)
      \<in> inv_image (cost_order <*lex*> less_than)
          (\<lambda>(g, e, st). (cost_measure g st, length (priority_queue st)))"
    by simp
next
  fix g :: graph and end_stop_id :: int and st :: search_state and x2 entry rest d st'
  assume pop: "heappop (priority_queue st) = Some x2" and x2: "(entry, rest) = x2"
    and rel: "relax_all (fst entry) (fst (snd entry)) (snd (snd entry))
        (dd_get g (fst (snd entry))) (st\<lparr>priority_queue := rest\<rparr>) = Inr st'"
  from pop x2 have "heappop (priority_queue st) = Some (entry, rest)"
    by simp
  from heappop_Some [OF this] have len: "length rest < length (priority_queue st)"
    by blast
  have same: "cost_measure g (st\<lparr>priority_queue := rest\<rparr>) = cost_measure g st"
    by (rule cost_measure_queue)
  from relax_all_measure [OF rel, of g] dd_get_targets
  have "st' = st\<lparr>priority_queue := rest\<rparr> \<or>
      (cost_measure g st', cost_measure g (st\<lparr>priority_queue := rest\<rparr>)) \<in> cost_order"
    by blast
  then show "((g, end_stop_id, st'), g, end_stop_id, st)
      \<in> inv_image (cost_order <*lex*> less_than)
          (\<lambda>(g, e, st). (cost_measure g st, length (priority_queue st)))"
    using len same by auto
qed

declare dijkstra.simps [simp del]

subsection \<open>The reconstruction of the path\<close>

text \<open>A leg of the path:
  \<^verbatim>\<open>{'start_stop_id': ..., 'end_stop_id': ..., 'line_id': ..., 'line_number': ...}\<close>.\<close>

record leg =
  start_stop_id :: int
  end_stop_id :: int
  line_id :: int
  leg_line_number :: "int option"

text \<open>\<^verbatim>\<open>bus_line = BusLine.objects.filter(id=prev_line_id).first()\<close> and
  \<^verbatim>\<open>bus_line.line_number if bus_line else None\<close>.\<close>

definition line_number_of :: "store \<Rightarrow> int \<Rightarrow> int option" where
  "line_number_of db i =
     map_option line_number (first_by_pk bl_id (filter (\<lambda>l. bl_id l = i) (bus_lines db)))"

text \<open>
  \<^verbatim>\<open>
  if not path or path[-1]['line_id'] != prev_line_id:
      path.append({'start_stop_id': prev_stop_id, 'end_stop_id': current_stop_id,
                   'line_id': prev_line_id, 'line_number': bus_line_number})
  else:
      path[-1]['start_stop_id'] = prev_stop_id
  \<close>
\<close>

definition extend_path :: "store \<Rightarrow> leg list \<Rightarrow> int \<Rightarrow> int \<Rightarrow> int \<Rightarrow> leg list" where
  "extend_path db path prev_stop_id prev_line_id current_stop_id =
     (if path = [] \<or> line_id (last path) \<noteq> prev_line_id
      then path @ [\<lparr>start_stop_id = prev_stop_id, end_stop_id = current_stop_id,
                    line_id = prev_line_id, leg_line_number = line_number_of db prev_line_id\<rparr>]
      else butlast path @ [(last path)\<lparr>start_stop_id := prev_stop_id\<rparr>])"

text \<open>
  The loop \<^verbatim>\<open>while current_stop_id != start_stop_id\<close> and the final
  \<^verbatim>\<open>path.reverse()\<close>. The loop follows the table of predecessors and need not end for an
  arbitrary table, so the result is an option and \<open>None\<close> stands for a loop that runs
  forever. \<^verbatim>\<open>predecessors.get(current_stop_id, (None, None))\<close> gives the pair of
  \<^verbatim>\<open>None\<close> for a stop that is no key, and then the empty list is returned; for a key
  whose value is \<^verbatim>\<open>None\<close> it gives \<^verbatim>\<open>None\<close>, which cannot be unpacked.
\<close>

partial_function (option) reconstruct ::
  "store \<Rightarrow> (int \<rightharpoonup> (int \<times> int) option) \<Rightarrow> int \<Rightarrow> int \<Rightarrow> leg list \<Rightarrow> (py_error + leg list) option" where
  "reconstruct db preds start_stop current_stop_id path =
     (if current_stop_id = start_stop then Some (Inr (rev path))
      else (case preds current_stop_id of
              None \<Rightarrow> Some (Inr [])
            | Some None \<Rightarrow> Some (Inl TypeError)
            | Some (Some prev) \<Rightarrow>
                reconstruct db preds start_stop (fst prev)
                  (extend_path db path (fst prev) (snd prev) current_stop_id)))"

text \<open>The state before the loop:
  \<^verbatim>\<open>
  distances = {stop.id: float('inf') for stop in all_stops}
  predecessors = {stop.id: None for stop in all_stops}
  distances[start_stop_id] = 0
  priority_queue = [(0, start_stop_id, None)]
  \<close>
\<close>

definition initial_state :: "store \<Rightarrow> int \<Rightarrow> search_state" where
  "initial_state db start_stop =
     \<lparr>distances = (map_of (map (\<lambda>s. (bs_id s, Inf)) (bus_stops db)))(start_stop \<mapsto> Fin 0),
      predecessors = map_of (map (\<lambda>s. (bs_id s, None)) (bus_stops db)),
      priority_queue = [(0, start_stop, None)]\<rparr>"

text \<open>
  \<^verbatim>\<open>
  def find_shortest_path(start_stop_id, end_stop_id):
      if start_stop_id == end_stop_id:
          return []
      ... graph, state, search loop ...
      if not shortest_path_found:
          return []
      ... reconstruction ...
      path.reverse()
      return path
  \<close>
\<close>

definition find_shortest_path :: "store \<Rightarrow> int \<Rightarrow> int \<Rightarrow> (py_error + leg list) option" where
  "find_shortest_path db start_stop end_stop =
     (if start_stop = end_stop then Some (Inr [])
      else (case dijkstra (build_graph db) end_stop (initial_state db start_stop) of
              Inl e \<Rightarrow> Some (Inl e)
            | Inr (shortest_path_found, st) \<Rightarrow>
                if \<not> shortest_path_found then Some (Inr [])
                else reconstruct db (predecessors st) start_stop end_stop []))"

subsection \<open>Routes in the graph and their transfers\<close>

text \<open>A route from a stop to a stop is a list of hops, each an entry of the adjacency
  list of the stop reached so far.\<close>

fun is_route :: "graph \<Rightarrow> int \<Rightarrow> neighbor list \<Rightarrow> int \<Rightarrow> bool" where
  "is_route g s [] e = (s = e)"
| "is_route g s (nb # hops) e = (nb \<in> set (dd_get g s) \<and> is_route g (nb_stop_id nb) hops e)"

text \<open>The number of line changes along a sequence of lines.\<close>

fun transfers :: "int list \<Rightarrow> nat" where
  "transfers (a # b # rest) = (if a \<noteq> b then 1 else 0) + transfers (b # rest)"
| "transfers _ = 0"

text \<open>Four stops S, X, Y, E and three lines: line 1 visits S, X; line 2 visits S, X, Y;
  line 3 visits Y, E. No line serves both S and E.\<close>

definition detour_db :: store where
  "detour_db =
     \<lparr>bus_stops = [mk_stop 1 ''S'' None None, mk_stop 2 ''X'' None None,
                  mk_stop 3 ''Y'' None None, mk_stop 4 ''E'' None None],
      bus_lines = [mk_line 1, mk_line 2, mk_line 3],
      route_segments =
        [mk_segment 1 (mk_line 1) (mk_stop 1 ''S'' None None) 1,
         mk_segment 2 (mk_line 1) (mk_stop 2 ''X'' None None) 2,
         mk_segment 3 (mk_line 2) (mk_stop 1 ''S'' None None) 1,
         mk_segment 4 (mk_line 2) (mk_stop 2 ''X'' None None) 2,
         mk_segment 5 (mk_line 2) (mk_stop 3 ''Y'' None None) 3,
         mk_segment 6 (mk_line 3) (mk_stop 3 ''Y'' None None) 1,
         mk_segment 7 (mk_line 3) (mk_stop 4 ''E'' None None) 2]\<rparr>"

subsection \<open>The path that is returned\<close>

text \<open>Legs are linked when each ends where the next starts.\<close>

fun linked :: "leg list \<Rightarrow> bool" where
  "linked (a # b # rest) = (end_stop_id a = start_stop_id b \<and> linked (b # rest))"
| "linked _ = True"

text \<open>The invariant of the reconstruction: the legs collected so far run from the end
  stop back to the current stop, and no two neighbours share a line.\<close>

definition path_inv :: "int \<Rightarrow> int \<Rightarrow> leg list \<Rightarrow> bool" where
  "path_inv e cur path =
     (distinct_adj (map line_id path) \<and> linked (rev path) \<and> (path = [] \<longrightarrow> cur = e) \<and>
      (path \<noteq> [] \<longrightarrow> start_stop_id (last path) = cur \<and> end_stop_id (hd path) = e))"

definition path_ok :: "int \<Rightarrow> int \<Rightarrow> leg list \<Rightarrow> bool" where
  "path_ok s e path =
     (distinct_adj (map line_id path) \<and> linked path \<and>
      (path \<noteq> [] \<longrightarrow> start_stop_id (hd path) = s \<and> end_stop_id (last path) = e))"

lemma linked_head:
  assumes "end_stop_id a = end_stop_id a'"
  shows "linked (a # rest) = linked (a' # rest)"
  using assms by (cases rest) simp_all

lemma extend_path_inv:
  assumes "path_inv e cur path"
  shows "path_inv e prev (extend_path db path prev line cur)"
proof (cases "path = []")
  case True
  with assms show ?thesis
    by (simp add: path_inv_def extend_path_def)
next
  case ne: False
  then obtain front l where path: "path = front @ [l]"
    by (metis rev_exhaust)
  from assms path have d: "distinct_adj (map line_id (front @ [l]))"
    and lk: "linked (l # rev front)" and st: "start_stop_id l = cur"
    and en: "end_stop_id (hd (front @ [l])) = e"
    by (simp_all add: path_inv_def)
  show ?thesis
  proof (cases "line_id l = line")
    case True
    let ?l = "l\<lparr>start_stop_id := prev\<rparr>"
    have ext: "extend_path db path prev line cur = front @ [?l]"
      using path True by (simp add: extend_path_def)
    have "map line_id (front @ [?l]) = map line_id (front @ [l])"
      by simp
    with d have "distinct_adj (map line_id (front @ [?l]))"
      by simp
    moreover have "linked (?l # rev front)"
      using lk linked_head [of ?l l "rev front"] by simp
    moreover have "end_stop_id (hd (front @ [?l])) = e"
      using en by (cases front) simp_all
    ultimately show ?thesis
      by (simp add: path_inv_def ext)
  next
    case False
    let ?n = "\<lparr>start_stop_id = prev, end_stop_id = cur, line_id = line,
        leg_line_number = line_number_of db line\<rparr>"
    have ext: "extend_path db path prev line cur = front @ [l, ?n]"
      using path False by (simp add: extend_path_def)
    have "distinct_adj (map line_id (front @ [l]) @ [line])"
      using d False by (simp add: distinct_adj_append_iff)
    then have "distinct_adj (map line_id (front @ [l, ?n]))"
      by simp
    moreover have "linked (?n # l # rev front)"
      using lk st by simp
    moreover have "end_stop_id (hd (front @ [l, ?n])) = e"
      using en by (cases front) simp_all
    ultimately show ?thesis
      unfolding ext path_inv_def by simp
  qed
qed

lemma path_inv_exit:
  assumes "path_inv e s path"
  shows "path_ok s e (rev path)"
  using assms
  by (cases "path = []") (simp_all add: path_inv_def path_ok_def rev_map [symmetric] hd_rev last_rev)

lemma reconstruct_path_ok:
  assumes "reconstruct db preds s cur path = Some r"
  shows "path_inv e cur path \<longrightarrow> (\<forall>res. r = Inr res \<longrightarrow> path_ok s e res)"
proof (induction db preds s cur path r rule: reconstruct.raw_induct)
  case (1 reconstruct' db preds s cur path r)
  show ?case
  proof (cases "cur = s")
    case True
    with 1(2) have r: "r = Inr (rev path)" by simp
    show ?thesis
    proof (intro impI allI)
      fix res
      assume "path_inv e cur path" and "r = Inr res"
      with r True path_inv_exit [of e s path] show "path_ok s e res"
        by simp
    qed
  next
    case False
    show ?thesis
    proof (cases "preds cur")
      case None
      with False 1(2) show ?thesis
        by (auto simp: path_ok_def)
    next
      case (Some v)
      show ?thesis
      proof (cases v)
        case None
        with False Some 1(2) show ?thesis by auto
      next
        case prev: (Some prev)
        with False Some 1(2)
        have step: "reconstruct' db preds s (fst prev)
            (extend_path db path (fst prev) (snd prev) cur) = Some r"
          by simp
        have ih: "path_inv e (fst prev) (extend_path db path (fst prev) (snd prev) cur) \<longrightarrow>
            (\<forall>res. r = Inr res \<longrightarrow> path_ok s e res)"
          using step by (rule 1(1))
        show ?thesis
        proof (intro impI allI)
          fix res
          assume "path_inv e cur path" and r: "r = Inr res"
          then have "path_inv e (fst prev) (extend_path db path (fst prev) (snd prev) cur)"
            by (simp add: extend_path_inv)
          with ih r show "path_ok s e res" by blast
        qed
      qed
    qed
  qed
qed (rule assms)

lemma detour_graph:
  "build_graph detour_db =
     [(1, [\<lparr>nb_stop_id = 2, nb_line_id = 1, nb_line_number = 10\<rparr>,
           \<lparr>nb_stop_id = 2, nb_line_id = 2, nb_line_number = 20\<rparr>]),
      (2, [\<lparr>nb_stop_id = 1, nb_line_id = 1, nb_line_number = 10\<rparr>,
           \<lparr>nb_stop_id = 1, nb_line_id = 2, nb_line_number = 20\<rparr>,
           \<lparr>nb_stop_id = 3, nb_line_id = 2, nb_line_number = 20\<rparr>]),
      (3, [\<lparr>nb_stop_id = 2, nb_line_id = 2, nb_line_number = 20\<rparr>,
           \<lparr>nb_stop_id = 4, nb_line_id = 3, nb_line_number = 30\<rparr>]),
      (4, [\<lparr>nb_stop_id = 3, nb_line_id = 3, nb_line_number = 30\<rparr>])]"
  by (simp add: build_graph_def segments_by_line_def all_route_segments_def detour_db_def
      mk_segment_def mk_line_def mk_stop_def)

lemma detour_path:
  "find_shortest_path detour_db 1 4 =
     Some (Inr [\<lparr>start_stop_id = 1, end_stop_id = 2, line_id = 1, leg_line_number = Some 10\<rparr>,
                \<lparr>start_stop_id = 2, end_stop_id = 3, line_id = 2, leg_line_number = Some 20\<rparr>,
                \<lparr>start_stop_id = 3, end_stop_id = 4, line_id = 3, leg_line_number = Some 30\<rparr>])"
proof -
  have lines: "line_number_of detour_db 1 = Some 10" "line_number_of detour_db 2 = Some 20"
    "line_number_of detour_db 3 = Some 30"
    by (simp_all add: line_number_of_def first_by_pk_def detour_db_def mk_line_def)
  have stops: "map bs_id (bus_stops detour_db) = [1, 2, 3, 4]"
    by (simp add: detour_db_def mk_stop_def)
  have init: "initial_state detour_db 1 =
      \<lparr>distances = (map_of [(1, Inf), (2, Inf), (3, Inf), (4, Inf)])(1 \<mapsto> Fin 0),
       predecessors = map_of [(1, None), (2, None), (3, None), (4, None)],
       priority_queue = [(0, 1, None)]\<rparr>"
    by (simp add: initial_state_def detour_db_def mk_stop_def)
  show ?thesis
    unfolding find_shortest_path_def detour_graph init
    by (simp add: dijkstra.simps heappop_def heappush_def relax_def dd_get_def
        reconstruct.simps extend_path_def lines)
qed

text \<open>
  C1 fails on the store \<open>detour_db\<close>. The search keeps one best cost for each stop, so X
  is settled with line 1, the first edge from S, at cost 0; the edge of line 2 from S to
  X has the same cost and is dropped. From X on line 1 the hop to Y on line 2 costs a
  transfer, and the path returned from S to E has three legs and two transfers, while
  the route on line 2 to Y and on line 3 to E has one.
\<close>

theorem find_shortest_path_detour:
  "find_shortest_path detour_db 1 4 =
     Some (Inr [\<lparr>start_stop_id = 1, end_stop_id = 2, line_id = 1, leg_line_number = Some 10\<rparr>,
                \<lparr>start_stop_id = 2, end_stop_id = 3, line_id = 2, leg_line_number = Some 20\<rparr>,
                \<lparr>start_stop_id = 3, end_stop_id = 4, line_id = 3, leg_line_number = Some 30\<rparr>]) \<and>
   transfers [1, 2, 3] = 2 \<and>
   is_route (build_graph detour_db) 1
     [\<lparr>nb_stop_id = 2, nb_line_id = 2, nb_line_number = 20\<rparr>,
      \<lparr>nb_stop_id = 3, nb_line_id = 2, nb_line_number = 20\<rparr>,
      \<lparr>nb_stop_id = 4, nb_line_id = 3, nb_line_number = 30\<rparr>] 4 \<and>
   transfers [2, 2, 3] = 1"
proof -
  note detour_path
  moreover have "is_route (build_graph detour_db) 1
     [\<lparr>nb_stop_id = 2, nb_line_id = 2, nb_line_number = 20\<rparr>,
      \<lparr>nb_stop_id = 3, nb_line_id = 2, nb_line_number = 20\<rparr>,
      \<lparr>nb_stop_id = 4, nb_line_id = 3, nb_line_number = 30\<rparr>] 4"
    unfolding detour_graph by (simp add: dd_get_def)
  ultimately show ?thesis by simp
qed

text \<open>
  C2. With the start equal to the end the result is the empty path, whatever the store
  holds: the first test of the function returns before the graph is built.
\<close>

theorem find_shortest_path_same_stop:
  "find_shortest_path db a a = Some (Inr [])"
  by (simp add: find_shortest_path_def)

lemma find_shortest_path_path_ok:
  assumes "find_shortest_path db start_stop end_stop = Some (Inr path)"
  shows "path_ok start_stop end_stop path"
proof (cases "start_stop = end_stop")
    case True
    with assms show ?thesis
      by (simp add: find_shortest_path_def path_ok_def)
  next
    case ne: False
    show ?thesis
    proof (cases "dijkstra (build_graph db) end_stop (initial_state db start_stop)")
      case (Inl e)
      with ne assms show ?thesis
        by (simp add: find_shortest_path_def)
    next
      case (Inr fs)
      obtain found st where fs: "fs = (found, st)"
        by (cases fs)
      show ?thesis
      proof (cases found)
        case False
        with ne Inr fs assms show ?thesis
          by (simp add: find_shortest_path_def path_ok_def)
      next
        case True
        with ne Inr fs assms
        have "reconstruct db (predecessors st) start_stop end_stop [] = Some (Inr path)"
          by (simp add: find_shortest_path_def)
        from reconstruct_path_ok [OF this, of end_stop] show ?thesis
          by (simp add: path_inv_def)
      qed
    qed
  qed

subsection \<open>The route search between two named stops\<close>

text \<open>The messages that the branch \<^verbatim>\<open>search_type == 'bus_stop'\<close> of
  \<^verbatim>\<open>search_route\<close> can set as \<^verbatim>\<open>error_message\<close>.\<close>

datatype message = Enter_both_stops | Invalid_stop_names | No_valid_transfer
  | No_route_found string string | Error_during_search py_error

text \<open>An entry of \<^verbatim>\<open>transfer_details\<close>: the dictionary of the Segment Extractor with
  the line number; the other keys added to it repeat values it holds already.\<close>

record 'f transfer_detail =
  td_segment :: "'f segment_details"
  td_bus_line_number :: int

text \<open>An entry of \<^verbatim>\<open>results\<close>: a direct line with the names and identities of the two
  stops, or the transfer itinerary with its totals and \<^verbatim>\<open>num_transfers\<close>.\<close>

datatype 'f search_result =
    Available_bus_line int string string int int
  | Transfer "'f transfer_detail list" "'f option" "'f option" int

record 'f search_response =
  results :: "'f search_result list"
  error_message :: "message option"

text \<open>\<^verbatim>\<open>Model.objects.get(id=i)\<close>\<close>

definition objects_get :: "('a \<Rightarrow> int) \<Rightarrow> 'a list \<Rightarrow> int \<Rightarrow> py_error + 'a" where
  "objects_get pk rows i =
     (case filter (\<lambda>r. pk r = i) rows of
        [] \<Rightarrow> Inl DoesNotExist
      | [r] \<Rightarrow> Inr r
      | _ \<Rightarrow> Inl MultipleObjectsReturned)"

text \<open>The totals start as the integer 0, here \<open>None\<close>, and become floats with the first
  value added; a value \<^verbatim>\<open>'N/A'\<close>, here \<open>None\<close>, is not added. The total reported is
  \<^verbatim>\<open>round(total, n) if total > 0 else 'N/A'\<close>.\<close>

definition add_total :: "'f runtime \<Rightarrow> 'f option \<Rightarrow> 'f option \<Rightarrow> 'f option" where
  "add_total rt running v =
     (case v of
        None \<Rightarrow> running
      | Some x \<Rightarrow>
          Some (case running of
                  None \<Rightarrow> float_add rt (float_of_int rt 0) x
                | Some t \<Rightarrow> float_add rt t x))"

definition report_total :: "'f runtime \<Rightarrow> 'f option \<Rightarrow> int \<Rightarrow> 'f option" where
  "report_total rt running n =
     (case running of
        None \<Rightarrow> None
      | Some t \<Rightarrow> if float_positive rt t then Some (round_float rt t n) else None)"

text \<open>
  The body of the loop over the legs of the transfer path; the state is
  \<^verbatim>\<open>(transfer_details, total_distance, total_time)\<close>:
  \<^verbatim>\<open>
  try:
      bus_line = BusLine.objects.get(id=segment_info['line_id'])
      segment_start_stop = BusStop.objects.get(id=segment_info['start_stop_id'])
      segment_end_stop = BusStop.objects.get(id=segment_info['end_stop_id'])
      segment_data = get_segment_details(bus_line, segment_start_stop, segment_end_stop)
      if segment_data:
          ...
          transfer_details.append(segment_data)
          ... totals ...
  except (BusLine.DoesNotExist, BusStop.DoesNotExist) as e:
      continue
  \<close>
\<close>

definition transfer_step ::
  "'f runtime \<Rightarrow> store \<Rightarrow> leg \<Rightarrow> 'f transfer_detail list \<times> 'f option \<times> 'f option
     \<Rightarrow> py_error + ('f transfer_detail list \<times> 'f option \<times> 'f option)" where
  "transfer_step rt db segment_info acc =
     (case objects_get bl_id (bus_lines db) (line_id segment_info) of
        Inl DoesNotExist \<Rightarrow> Inr acc
      | Inl e \<Rightarrow> Inl e
      | Inr l \<Rightarrow>
     (case objects_get bs_id (bus_stops db) (start_stop_id segment_info) of
        Inl DoesNotExist \<Rightarrow> Inr acc
      | Inl e \<Rightarrow> Inl e
      | Inr segment_start_stop \<Rightarrow>
     (case objects_get bs_id (bus_stops db) (end_stop_id segment_info) of
        Inl DoesNotExist \<Rightarrow> Inr acc
      | Inl e \<Rightarrow> Inl e
      | Inr segment_end_stop \<Rightarrow>
     (case get_segment_details rt db l segment_start_stop segment_end_stop of
        Inl e \<Rightarrow> Inl e
      | Inr None \<Rightarrow> Inr acc
      | Inr (Some segment_data) \<Rightarrow>
          Inr (fst acc @ [\<lparr>td_segment = segment_data, td_bus_line_number = line_number l\<rparr>],
               add_total rt (fst (snd acc)) (total_distance_km segment_data),
               add_total rt (snd (snd acc)) (total_time_minutes segment_data))))))"

fun transfer_loop ::
  "'f runtime \<Rightarrow> store \<Rightarrow> leg list \<Rightarrow> 'f transfer_detail list \<times> 'f option \<times> 'f option
     \<Rightarrow> py_error + ('f transfer_detail list \<times> 'f option \<times> 'f option)" where
  "transfer_loop rt db [] acc = Inr acc"
| "transfer_loop rt db (segment_info # rest) acc =
     (case transfer_step rt db segment_info acc of
        Inl e \<Rightarrow> Inl e
      | Inr acc' \<Rightarrow> transfer_loop rt db rest acc')"

text \<open>The lines that serve both stops, \<^verbatim>\<open>.distinct().order_by('line_number')\<close>.\<close>

definition direct_bus_lines :: "store \<Rightarrow> BusStop \<Rightarrow> BusStop \<Rightarrow> BusLine list" where
  "direct_bus_lines db start_stop end_stop =
     sort_key line_number (common_bus_lines db start_stop end_stop)"

text \<open>
  The branch \<^verbatim>\<open>search_type == 'bus_stop'\<close> of \<^verbatim>\<open>search_route\<close>, from the two request
  parameters to \<^verbatim>\<open>results\<close> and \<^verbatim>\<open>error_message\<close>. The log of searches
  (\<^verbatim>\<open>RouteSearch\<close>) is no part of the store here. An exception inside the
  \<^verbatim>\<open>try\<close> block becomes the message of the \<^verbatim>\<open>except Exception\<close> clause; \<open>None\<close>
  stands for a reconstruction that runs forever.
  \<^verbatim>\<open>
  transfer_path = find_shortest_path(start_stop_obj.id, end_stop_obj.id)
  if transfer_path:
      ...
  else:
      error_message = f"No direct or transfer route found between ..."
  \<close>
\<close>

definition search_route_bus_stop ::
  "'f runtime \<Rightarrow> store \<Rightarrow> string \<Rightarrow> string \<Rightarrow> 'f search_response option" where
  "search_route_bus_stop rt db start_param end_param =
     (let start_stop_name_raw = strip start_param; end_stop_name_raw = strip end_param in
      if start_stop_name_raw = [] \<or> end_stop_name_raw = []
      then Some \<lparr>results = [], error_message = Some Enter_both_stops\<rparr>
      else
        (case (get_bus_stop_object db start_stop_name_raw,
               get_bus_stop_object db end_stop_name_raw) of
           (Some start_stop_obj, Some end_stop_obj) \<Rightarrow>
             if direct_bus_lines db start_stop_obj end_stop_obj \<noteq> []
             then Some \<lparr>results =
                          map (\<lambda>l. Available_bus_line (line_number l) (name_en start_stop_obj)
                                     (name_en end_stop_obj) (bs_id start_stop_obj) (bs_id end_stop_obj))
                            (direct_bus_lines db start_stop_obj end_stop_obj),
                        error_message = None\<rparr>
             else
               (case find_shortest_path db (bs_id start_stop_obj) (bs_id end_stop_obj) of
                  None \<Rightarrow> None
                | Some (Inl e) \<Rightarrow> Some \<lparr>results = [], error_message = Some (Error_during_search e)\<rparr>
                | Some (Inr transfer_path) \<Rightarrow>
                    if transfer_path \<noteq> []
                    then
                      (case transfer_loop rt db transfer_path ([], None, None) of
                         Inl e \<Rightarrow> Some \<lparr>results = [], error_message = Some (Error_during_search e)\<rparr>
                       | Inr acc \<Rightarrow>
                           if fst acc \<noteq> []
                           then Some \<lparr>results =
                                        [Transfer (fst acc) (report_total rt (fst (snd acc)) 2)
                                           (report_total rt (snd (snd acc)) 0)
                                           (int (length transfer_path) - 1)],
                                      error_message = None\<rparr>
                           else Some \<lparr>results = [], error_message = Some No_valid_transfer\<rparr>)
                    else Some \<lparr>results = [],
                               error_message = Some (No_route_found (name_en start_stop_obj)
                                                       (name_en end_stop_obj))\<rparr>)
         | _ \<Rightarrow> Some \<lparr>results = [], error_message = Some Invalid_stop_names\<rparr>))"

text \<open>A line from A to B, and a stop C that no line serves.\<close>

definition island_db :: store where
  "island_db =
     \<lparr>bus_stops = [mk_stop 1 ''A'' None None, mk_stop 2 ''B'' None None, mk_stop 3 ''C'' None None],
      bus_lines = [mk_line 1],
      route_segments = [mk_segment 1 (mk_line 1) (mk_stop 1 ''A'' None None) 1,
                        mk_segment 2 (mk_line 1) (mk_stop 2 ''B'' None None) 2]\<rparr>"

lemma island_search:
  "\<exists>st. dijkstra (build_graph island_db) 3 (initial_state island_db 1) = Inr (False, st)"
proof -
  have g: "build_graph island_db =
      [(1, [\<lparr>nb_stop_id = 2, nb_line_id = 1, nb_line_number = 10\<rparr>]),
       (2, [\<lparr>nb_stop_id = 1, nb_line_id = 1, nb_line_number = 10\<rparr>])]"
    by (simp add: build_graph_def segments_by_line_def all_route_segments_def island_db_def
        mk_segment_def mk_line_def mk_stop_def)
  have init: "initial_state island_db 1 =
      \<lparr>distances = (map_of [(1, Inf), (2, Inf), (3, Inf)])(1 \<mapsto> Fin 0),
       predecessors = map_of [(1, None), (2, None), (3, None)],
       priority_queue = [(0, 1, None)]\<rparr>"
    by (simp add: initial_state_def island_db_def mk_stop_def)
  show ?thesis
    unfolding g init
    by (simp add: dijkstra.simps heappop_def heappush_def relax_def dd_get_def)
qed

lemma island_stop:
  "get_bus_stop_object island_db ''C'' = Some (mk_stop 3 ''C'' None None)"
  by (simp add: get_bus_stop_object_def parse_stop_name_with_road_def endswith_def island_db_def
      mk_stop_def first_by_pk_def no_road_query_def name_query_def iexact_def iexact_null_def
      upper_code_def)

text \<open>
  C9. The empty list is returned when the start equals the end, when the search ends
  with an empty heap without reaching the end stop, and when the reconstruction meets a
  stop that has no entry in the table of predecessors. The route search tests the list for
  truth, so a query from a stop to itself, when no line serves the stop, is answered with
  the message that no route was found.
\<close>

theorem empty_path_is_ambiguous:
  "find_shortest_path db a a = Some (Inr []) \<and>
   (s \<noteq> e \<and> dijkstra (build_graph db) e (initial_state db s) = Inr (False, st) \<longrightarrow>
      find_shortest_path db s e = Some (Inr [])) \<and>
   (cur \<noteq> s \<and> preds cur = None \<longrightarrow> reconstruct db preds s cur path = Some (Inr [])) \<and>
   (strip raw \<noteq> [] \<and> get_bus_stop_object db (strip raw) = Some stop \<and>
    common_bus_lines db stop stop = [] \<longrightarrow>
      search_route_bus_stop rt db raw raw =
        Some \<lparr>results = [], error_message = Some (No_route_found (name_en stop) (name_en stop))\<rparr>)"
proof (intro conjI impI)
  show "find_shortest_path db a a = Some (Inr [])"
    by (simp add: find_shortest_path_def)
next
  assume "s \<noteq> e \<and> dijkstra (build_graph db) e (initial_state db s) = Inr (False, st)"
  then show "find_shortest_path db s e = Some (Inr [])"
    by (simp add: find_shortest_path_def)
next
  assume "cur \<noteq> s \<and> preds cur = None"
  then show "reconstruct db preds s cur path = Some (Inr [])"
    by (subst reconstruct.simps) simp
next
  assume a: "strip raw \<noteq> [] \<and> get_bus_stop_object db (strip raw) = Some stop \<and>
    common_bus_lines db stop stop = []"
  have "find_shortest_path db (bs_id stop) (bs_id stop) = Some (Inr [])"
    by (simp add: find_shortest_path_def)
  with a show "search_route_bus_stop rt db raw raw =
      Some \<lparr>results = [], error_message = Some (No_route_found (name_en stop) (name_en stop))\<rparr>"
    by (simp add: search_route_bus_stop_def direct_bus_lines_def)
qed

theorem empty_path_is_ambiguous_witness:
  "find_shortest_path island_db 1 3 = Some (Inr []) \<and>
   reconstruct island_db Map.empty 1 2 [] = Some (Inr []) \<and>
   search_route_bus_stop (exact_runtime Transport_failure) island_db ''C'' ''C'' =
     Some \<lparr>results = [], error_message = Some (No_route_found ''C'' ''C'')\<rparr>"
proof -
  obtain st where st: "dijkstra (build_graph island_db) 3 (initial_state island_db 1) = Inr (False, st)"
    using island_search by blast
  have c: "strip ''C'' \<noteq> [] \<and> get_bus_stop_object island_db (strip ''C'') = Some (mk_stop 3 ''C'' None None) \<and>
      common_bus_lines island_db (mk_stop 3 ''C'' None None) (mk_stop 3 ''C'' None None) = []"
    using island_stop
    by (simp add: strip_def isspace_def common_bus_lines_def line_segments_def island_db_def
        mk_stop_def mk_segment_def mk_line_def)
  from empty_path_is_ambiguous [of island_db 1 1 3 st 2 Map.empty "[]" "''C''"
      "mk_stop 3 ''C'' None None" "exact_runtime Transport_failure"] st c
  show ?thesis
    by (simp add: mk_stop_def)
qed

subsection \<open>The search always returns\<close>

text \<open>A stop is rooted when its chain of predecessors leads to the start stop through
  stops of finite cost, with costs that do not grow towards the start.\<close>

inductive rooted :: "(int \<rightharpoonup> cost) \<Rightarrow> (int \<rightharpoonup> (int \<times> int) option) \<Rightarrow> int \<Rightarrow> int \<Rightarrow> bool"
  for dmap :: "int \<rightharpoonup> cost" and preds :: "int \<rightharpoonup> (int \<times> int) option" and s :: int where
  root: "rooted dmap preds s s"
| hop: "n \<noteq> s \<Longrightarrow> preds n = Some (Some (p, l)) \<Longrightarrow> dmap n = Some (Fin dn) \<Longrightarrow>
        dmap p = Some (Fin dp) \<Longrightarrow> dp \<le> dn \<Longrightarrow> rooted dmap preds s p \<Longrightarrow> rooted dmap preds s n"

text \<open>The invariant of the search loop: the start stop has cost 0, and every stop in the
  heap is rooted and has a finite cost that is at most the cost of its entry.\<close>

definition search_inv :: "int \<Rightarrow> search_state \<Rightarrow> bool" where
  "search_inv s st =
     (distances st s = Some (Fin 0) \<and>
      (\<forall>entry \<in> set (priority_queue st).
         rooted (distances st) (predecessors st) s (fst (snd entry)) \<and>
         (\<exists>d. distances st (fst (snd entry)) = Some (Fin d) \<and> d \<le> fst entry)))"

lemma rooted_reconstruct:
  assumes "rooted dmap preds s n"
  shows "\<exists>r. reconstruct db preds s n path = Some r"
  using assms
proof (induction arbitrary: path)
  case root
  show ?case by (subst reconstruct.simps) simp
next
  case (hop n p l dn dp)
  from hop.IH [of "extend_path db path p l n"] obtain r where
    "reconstruct db preds s p (extend_path db path p l n) = Some r"
    by blast
  with hop.hyps(1,2) show ?case
    by (subst reconstruct.simps) simp
qed

lemma rooted_below:
  assumes "rooted dmap preds s x" and "dmap x = Some (Fin dx)"
    and "dmap n = Some dn" and "cost_less dx dn" and "n \<noteq> s"
  shows "rooted (dmap(n \<mapsto> Fin c)) (preds(n \<mapsto> v)) s x"
  using assms
proof (induction arbitrary: dx)
  case root
  show ?case by (rule rooted.root)
next
  case (hop x p l dx' dp)
  from hop.hyps(3) hop.prems(1) have dx: "dx' = dx" by simp
  from hop.prems(1,2,3) have xn: "x \<noteq> n"
    by auto
  have lt: "cost_less dp dn"
    using hop.prems(3) hop.hyps(5) dx by (cases dn) auto
  then have pn: "p \<noteq> n"
    using hop.hyps(4) hop.prems(2) by auto
  have rp: "rooted (dmap(n \<mapsto> Fin c)) (preds(n \<mapsto> v)) s p"
    using hop.IH [OF hop.hyps(4) hop.prems(2) lt hop.prems(4)] .
  show ?case
  proof (rule rooted.hop [where p = p and l = l and dn = dx' and dp = dp])
    show "x \<noteq> s" by (rule hop.hyps(1))
    show "(preds(n \<mapsto> v)) x = Some (Some (p, l))" using hop.hyps(2) xn by simp
    show "(dmap(n \<mapsto> Fin c)) x = Some (Fin dx')" using hop.hyps(3) xn by simp
    show "(dmap(n \<mapsto> Fin c)) p = Some (Fin dp)" using hop.hyps(4) pn by simp
    show "dp \<le> dx'" by (rule hop.hyps(5))
    show "rooted (dmap(n \<mapsto> Fin c)) (preds(n \<mapsto> v)) s p" by (rule rp)
  qed
qed

lemma rooted_update:
  assumes ns: "n \<noteq> s" and dn: "dmap n = Some dn" and less: "cost_less c dn"
    and dc: "dmap cur = Some (Fin k)" and kc: "k \<le> c" and rc: "rooted dmap preds s cur"
  shows "rooted (dmap(n \<mapsto> Fin c)) (preds(n \<mapsto> Some (cur, l))) s n"
    and "rooted dmap preds s m \<Longrightarrow> rooted (dmap(n \<mapsto> Fin c)) (preds(n \<mapsto> Some (cur, l))) s m"
proof -
  let ?dmap = "dmap(n \<mapsto> Fin c)" and ?preds = "preds(n \<mapsto> Some (cur, l))"
  have kl: "cost_less k dn"
    using less kc by (cases dn) auto
  then have cn: "cur \<noteq> n"
    using dc dn by auto
  have rc': "rooted ?dmap ?preds s cur"
    using rooted_below [OF rc dc dn kl ns] .
  show new: "rooted ?dmap ?preds s n"
  proof (rule rooted.hop [where p = cur and l = l and dn = c and dp = k])
    show "n \<noteq> s" by (rule ns)
    show "?preds n = Some (Some (cur, l))" by simp
    show "?dmap n = Some (Fin c)" by simp
    show "?dmap cur = Some (Fin k)" using dc cn by simp
    show "k \<le> c" by (rule kc)
    show "rooted ?dmap ?preds s cur" by (rule rc')
  qed
  show "rooted ?dmap ?preds s m" if "rooted dmap preds s m"
    using that
  proof (induction)
    case root
    show ?case by (rule rooted.root)
  next
    case (hop m p l' dm dp)
    show ?case
    proof (cases "m = n")
      case True
      with new show ?thesis by blast
    next
      case mn: False
      show ?thesis
      proof (cases "p = n")
        case True
        with hop.hyps(4) dn have "dn = Fin dp" by simp
        with less hop.hyps(5) have cd: "c \<le> dm" by simp
        show ?thesis
        proof (rule rooted.hop [where p = p and l = l' and dn = dm and dp = c])
          show "m \<noteq> s" by (rule hop.hyps(1))
          show "?preds m = Some (Some (p, l'))" using hop.hyps(2) mn by simp
          show "?dmap m = Some (Fin dm)" using hop.hyps(3) mn by simp
          show "?dmap p = Some (Fin c)" using True by simp
          show "c \<le> dm" by (rule cd)
          show "rooted ?dmap ?preds s p" by (rule hop.IH)
        qed
      next
        case pn: False
        show ?thesis
        proof (rule rooted.hop [where p = p and l = l' and dn = dm and dp = dp])
          show "m \<noteq> s" by (rule hop.hyps(1))
          show "?preds m = Some (Some (p, l'))" using hop.hyps(2) mn by simp
          show "?dmap m = Some (Fin dm)" using hop.hyps(3) mn by simp
          show "?dmap p = Some (Fin dp)" using hop.hyps(4) pn by simp
          show "dp \<le> dm" by (rule hop.hyps(5))
          show "rooted ?dmap ?preds s p" by (rule hop.IH)
        qed
      qed
    qed
  qed
qed

lemma relax_inv:
  assumes inv: "search_inv s st"
    and rc: "rooted (distances st) (predecessors st) s cur"
    and dc: "distances st cur = Some (Fin c)"
    and r: "relax c cur line nb st = Inr st'"
  shows "search_inv s st' \<and> rooted (distances st') (predecessors st') s cur \<and>
         distances st' cur = Some (Fin c)"
proof -
  define new_cost where
    "new_cost = c + (if line \<noteq> None \<and> line \<noteq> Some (nb_line_id nb) then 1 else 0)"
  define n where "n = nb_stop_id nb"
  from r obtain dn where dn: "distances st n = Some dn"
    by (auto simp: relax_def n_def Let_def split: option.splits)
  show ?thesis
  proof (cases "cost_less new_cost dn")
    case False
    with r dn have "st' = st"
      by (simp add: relax_def n_def new_cost_def Let_def)
    with inv rc dc show ?thesis by simp
  next
    case True
    with r dn have st': "st' = st\<lparr>distances := (distances st)(n \<mapsto> Fin new_cost),
        predecessors := (predecessors st)(n \<mapsto> Some (cur, nb_line_id nb)),
        priority_queue := heappush (priority_queue st) (new_cost, n, Some (nb_line_id nb))\<rparr>"
      by (auto simp: relax_def n_def new_cost_def Let_def)
    have kc: "c \<le> new_cost" by (simp add: new_cost_def)
    have ns: "n \<noteq> s"
    proof
      assume "n = s"
      with inv dn have "dn = Fin 0" by (simp add: search_inv_def)
      with True show False by simp
    qed
    have cn: "cur \<noteq> n"
    proof
      assume "cur = n"
      with dc dn have "dn = Fin c" by simp
      with True kc show False by simp
    qed
    note upd = rooted_update [OF ns dn True dc kc rc, where l = "nb_line_id nb"]
    have start: "distances st' s = Some (Fin 0)"
      using inv ns by (simp add: st' search_inv_def)
    have old: "rooted (distances st') (predecessors st') s (fst (snd entry)) \<and>
        (\<exists>d. distances st' (fst (snd entry)) = Some (Fin d) \<and> d \<le> fst entry)"
      if "entry \<in> set (priority_queue st)" for entry
    proof -
      from inv that obtain d where ro: "rooted (distances st) (predecessors st) s (fst (snd entry))"
        and d: "distances st (fst (snd entry)) = Some (Fin d)" and le: "d \<le> fst entry"
        by (auto simp: search_inv_def)
      have "rooted (distances st') (predecessors st') s (fst (snd entry))"
        using upd(2) [OF ro] by (simp add: st')
      moreover have "\<exists>d'. distances st' (fst (snd entry)) = Some (Fin d') \<and> d' \<le> fst entry"
      proof (cases "fst (snd entry) = n")
        case eq: True
        with d dn have "dn = Fin d" by simp
        with True le have "new_cost \<le> fst entry" by simp
        with eq show ?thesis by (simp add: st')
      next
        case False
        with d le show ?thesis by (simp add: st')
      qed
      ultimately show ?thesis by blast
    qed
    have new: "rooted (distances st') (predecessors st') s n \<and>
        (\<exists>d. distances st' n = Some (Fin d) \<and> d \<le> new_cost)"
      using upd(1) by (simp add: st')
    have queue: "priority_queue st' = priority_queue st @ [(new_cost, n, Some (nb_line_id nb))]"
      by (simp add: st' heappush_def)
    have "\<forall>entry \<in> set (priority_queue st').
        rooted (distances st') (predecessors st') s (fst (snd entry)) \<and>
        (\<exists>d. distances st' (fst (snd entry)) = Some (Fin d) \<and> d \<le> fst entry)"
    proof (rule ballI)
      fix entry
      assume "entry \<in> set (priority_queue st')"
      then consider (a) "entry \<in> set (priority_queue st)"
        | (b) "entry = (new_cost, n, Some (nb_line_id nb))"
        unfolding queue by auto
      then show "rooted (distances st') (predecessors st') s (fst (snd entry)) \<and>
          (\<exists>d. distances st' (fst (snd entry)) = Some (Fin d) \<and> d \<le> fst entry)"
      proof cases
        case a
        then show ?thesis by (rule old)
      next
        case b
        with new show ?thesis by simp
      qed
    qed
    with start have "search_inv s st'"
      unfolding search_inv_def by (rule conjI)
    moreover have "rooted (distances st') (predecessors st') s cur"
      using upd(2) [OF rc] by (simp add: st')
    moreover have "distances st' cur = Some (Fin c)"
      using dc cn by (simp add: st')
    ultimately show ?thesis by blast
  qed
qed

lemma relax_all_inv:
  assumes "search_inv s st"
    and "rooted (distances st) (predecessors st) s cur"
    and "distances st cur = Some (Fin c)"
    and "relax_all c cur line nbs st = Inr st'"
  shows "search_inv s st'"
  using assms
proof (induction nbs arbitrary: st)
  case Nil
  then show ?case by simp
next
  case (Cons nb nbs)
  from Cons.prems(4) obtain st1 where s1: "relax c cur line nb st = Inr st1"
    and s2: "relax_all c cur line nbs st1 = Inr st'"
    by (auto split: sum.splits)
  from relax_inv [OF Cons.prems(1,2,3) s1] Cons.IH [OF _ _ _ s2]
  show ?case by blast
qed

lemma search_inv_pop:
  assumes "search_inv s st" and "heappop (priority_queue st) = Some (entry, rest)"
  shows "search_inv s (st\<lparr>priority_queue := rest\<rparr>)"
    and "rooted (distances st) (predecessors st) s (fst (snd entry))"
    and "\<exists>d. distances st (fst (snd entry)) = Some (Fin d) \<and> d \<le> fst entry"
proof -
  from heappop_Some [OF assms(2)] have mem: "entry \<in> set (priority_queue st)"
    and rest: "rest = remove1 entry (priority_queue st)"
    by blast+
  have "set rest \<subseteq> set (priority_queue st)"
    unfolding rest by (rule set_remove1_subset)
  with assms(1) show "search_inv s (st\<lparr>priority_queue := rest\<rparr>)"
    by (auto simp: search_inv_def)
  from assms(1) mem show "rooted (distances st) (predecessors st) s (fst (snd entry))"
    and "\<exists>d. distances st (fst (snd entry)) = Some (Fin d) \<and> d \<le> fst entry"
    by (auto simp: search_inv_def)
qed

lemma dijkstra_rooted:
  assumes "search_inv s st" and "dijkstra g e st = Inr (True, st')"
  shows "rooted (distances st') (predecessors st') s e"
  using assms
proof (induction g e st rule: dijkstra.induct)
  case (1 g e st)
  show ?case
  proof (cases "heappop (priority_queue st)")
    case None
    with "1.prems"(2) show ?thesis
      by (subst (asm) dijkstra.simps) simp
  next
    case (Some x2)
    obtain entry rest where x2: "x2 = (entry, rest)"
      by (cases x2)
    with Some have pop: "heappop (priority_queue st) = Some (entry, rest)"
      by simp
    note p = search_inv_pop [OF "1.prems"(1) pop]
    from p(3) obtain d where d: "distances st (fst (snd entry)) = Some (Fin d)"
      and le: "d \<le> fst entry"
      by blast
    show ?thesis
    proof (cases "cost_greater (fst entry) (Fin d)")
      case True
      with "1.prems"(2) pop d
      have run: "dijkstra g e (st\<lparr>priority_queue := rest\<rparr>) = Inr (True, st')"
        by (subst (asm) dijkstra.simps) simp
      show ?thesis
        by (rule "1.IH"(1) [OF Some x2 [symmetric] d True p(1) run])
    next
      case fresh: False
      with le have eq: "fst entry = d" by simp
      show ?thesis
      proof (cases "fst (snd entry) = e")
        case True
        with "1.prems"(2) pop d fresh have "st' = st\<lparr>priority_queue := rest\<rparr>"
          by (subst (asm) dijkstra.simps) simp
        with p(2) True show ?thesis by simp
      next
        case False
        show ?thesis
        proof (cases "relax_all (fst entry) (fst (snd entry)) (snd (snd entry))
            (dd_get g (fst (snd entry))) (st\<lparr>priority_queue := rest\<rparr>)")
          case (Inl err)
          with "1.prems"(2) pop d fresh False show ?thesis
            by (subst (asm) dijkstra.simps) simp
        next
          case (Inr st1)
          with "1.prems"(2) pop d fresh False
          have run: "dijkstra g e st1 = Inr (True, st')"
            by (subst (asm) dijkstra.simps) simp
          have "search_inv s st1"
            using relax_all_inv [OF p(1) _ _ Inr] p(2) d eq by simp
          then show ?thesis
            by (rule "1.IH"(2) [OF Some x2 [symmetric] d fresh False Inr _ run])
        qed
      qed
    qed
  qed
qed

lemma initial_state_inv: "search_inv s (initial_state db s)"
  by (auto simp: search_inv_def initial_state_def intro: rooted.root)

lemma find_shortest_path_returns: "\<exists>r. find_shortest_path db s e = Some r"
proof (cases "s = e")
  case True
  then show ?thesis by (simp add: find_shortest_path_def)
next
  case ne: False
  show ?thesis
  proof (cases "dijkstra (build_graph db) e (initial_state db s)")
    case (Inl err)
    with ne show ?thesis by (simp add: find_shortest_path_def)
  next
    case (Inr fs)
    obtain found st where fs: "fs = (found, st)" by (cases fs)
    show ?thesis
    proof (cases found)
      case False
      with ne Inr fs show ?thesis by (simp add: find_shortest_path_def)
    next
      case True
      with Inr fs have "dijkstra (build_graph db) e (initial_state db s) = Inr (True, st)"
        by simp
      from dijkstra_rooted [OF initial_state_inv this]
      have "rooted (distances st) (predecessors st) s e" .
      from rooted_reconstruct [OF this, of db "[]"] ne Inr fs True show ?thesis
        by (simp add: find_shortest_path_def)
    qed
  qed
qed

text \<open>
  C3. The function always returns, a path or an exception, and in a path that is
  returned no two adjacent legs have the same line and the legs are in the order from the
  start to the end: the first leg starts at the start stop, each leg ends where the next
  starts, and the last leg ends at the end stop.
\<close>

theorem find_shortest_path_merged:
  "\<exists>r. find_shortest_path db start_stop end_stop = Some r \<and>
     (\<forall>path. r = Inr path \<longrightarrow>
        distinct_adj (map line_id path) \<and> linked path \<and>
        (path \<noteq> [] \<longrightarrow>
           start_stop_id (hd path) = start_stop \<and> end_stop_id (last path) = end_stop))"
proof -
  obtain r where r: "find_shortest_path db start_stop end_stop = Some r"
    using find_shortest_path_returns by blast
  have "distinct_adj (map line_id path) \<and> linked path \<and>
      (path \<noteq> [] \<longrightarrow> start_stop_id (hd path) = start_stop \<and> end_stop_id (last path) = end_stop)"
    if "r = Inr path" for path
    using find_shortest_path_path_ok [of db start_stop end_stop path] r that
    by (simp add: path_ok_def)
  with r show ?thesis by blast
qed

theorem find_shortest_path_merged_witness:
  "distinct_adj (map line_id
     [\<lparr>start_stop_id = 1, end_stop_id = 2, line_id = 1, leg_line_number = Some 10\<rparr>,
      \<lparr>start_stop_id = 2, end_stop_id = 3, line_id = 2, leg_line_number = Some 20\<rparr>,
      \<lparr>start_stop_id = 3, end_stop_id = 4, line_id = 3, leg_line_number = Some 30\<rparr>]) \<and>
   linked
     [\<lparr>start_stop_id = 1, end_stop_id = 2, line_id = 1, leg_line_number = Some 10\<rparr>,
      \<lparr>start_stop_id = 2, end_stop_id = 3, line_id = 2, leg_line_number = Some 20\<rparr>,
      \<lparr>start_stop_id = 3, end_stop_id = 4, line_id = 3, leg_line_number = Some 30\<rparr>]"
proof -
  from find_shortest_path_merged [of detour_db 1 4] obtain r where
    r: "find_shortest_path detour_db 1 4 = Some r"
    and ok: "\<And>path. r = Inr path \<Longrightarrow> distinct_adj (map line_id path) \<and> linked path"
    by blast
  from r detour_path have "r = Inr
     [\<lparr>start_stop_id = 1, end_stop_id = 2, line_id = 1, leg_line_number = Some 10\<rparr>,
      \<lparr>start_stop_id = 2, end_stop_id = 3, line_id = 2, leg_line_number = Some 20\<rparr>,
      \<lparr>start_stop_id = 3, end_stop_id = 4, line_id = 3, leg_line_number = Some 30\<rparr>]"
    by simp
  then show ?thesis by (rule ok)
qed

end
